theory Spec2Isabelle
  imports Complex_Main "HOL-Library.Multiset" "HOL-Library.List_Lexorder" "HOL-Library.Char_ord"
begin

section \<open>Python values, reviews and polarities\<close>

text \<open>
  A review is a Python dict from field names to arbitrary values. The values the analyzers
  distinguish are modelled by \<open>pyval\<close>: \<open>None\<close>, booleans, unbounded integers, floats
  (a finite float is its exact rational value; the two infinities and NaN are kept apart),
  strings and lists. Strings are byte strings: the model covers ASCII text.
\<close>

datatype pyfloat = Fin rat | PosInf | NegInf | NaN

datatype pyval =
    VNone
  | VBool bool
  | VInt int
  | VFloat pyfloat
  | VStr string
  | VList "pyval list"

type_synonym review = "string \<rightharpoonup> pyval"

datatype sentiment = Positive | Negative | Neutral

datatype error = AttributeError | ValueError | OverflowError | ZeroDivisionError | IndexError

text \<open>Python truthiness (\<open>if x\<close>, \<open>not x\<close>).\<close>

fun truthy :: "pyval \<Rightarrow> bool" where
  "truthy VNone = False"
| "truthy (VBool b) = b"
| "truthy (VInt i) = (i \<noteq> 0)"
| "truthy (VFloat (Fin q)) = (q \<noteq> 0)"
| "truthy (VFloat _) = True"
| "truthy (VStr s) = (s \<noteq> [])"
| "truthy (VList xs) = (xs \<noteq> [])"

text \<open>\<open>isinstance(rating, (int, float))\<close>: \<open>bool\<close> is a subclass of \<open>int\<close>.\<close>

fun is_int_or_float :: "pyval \<Rightarrow> bool" where
  "is_int_or_float (VBool _) = True"
| "is_int_or_float (VInt _) = True"
| "is_int_or_float (VFloat _) = True"
| "is_int_or_float _ = False"

text \<open>
  \<open>rating >= k\<close> and \<open>rating <= k\<close> for an integer constant \<open>k\<close>. Python compares an
  int with a float exactly; every comparison with NaN is false; \<open>True\<close> is 1 and
  \<open>False\<close> is 0. The functions are only called on values that passed the
  \<open>isinstance\<close> test.
\<close>

fun num_ge :: "pyval \<Rightarrow> int \<Rightarrow> bool" where
  "num_ge (VInt i) k = (k \<le> i)"
| "num_ge (VBool b) k = (k \<le> (if b then 1 else 0))"
| "num_ge (VFloat (Fin q)) k = (of_int k \<le> q)"
| "num_ge (VFloat PosInf) k = True"
| "num_ge _ k = False"

fun num_le :: "pyval \<Rightarrow> int \<Rightarrow> bool" where
  "num_le (VInt i) k = (i \<le> k)"
| "num_le (VBool b) k = ((if b then 1 else 0) \<le> k)"
| "num_le (VFloat (Fin q)) k = (q \<le> of_int k)"
| "num_le (VFloat NegInf) k = True"
| "num_le _ k = False"

text \<open>
  A dict whose iteration order matters is an association list in insertion order;
  \<open>d[k] = v\<close> overwrites in place or appends.
\<close>

fun dict_set :: "('k \<times> 'v) list \<Rightarrow> 'k \<Rightarrow> 'v \<Rightarrow> ('k \<times> 'v) list" where
  "dict_set [] k v = [(k, v)]"
| "dict_set ((k', v') # d) k v = (if k' = k then (k', v) # d else (k', v') # dict_set d k v)"

section \<open>Rating classifier (\<open>_analyze_numeric_ratings\<close>)\<close>

definition RATING_THRESHOLD_HIGH :: int where
  "RATING_THRESHOLD_HIGH = 7"

definition RATING_THRESHOLD_LOW :: int where
  "RATING_THRESHOLD_LOW = 4"

definition rating_fields :: "(string \<times> string) list" where
  "rating_fields =
     [(''work_life_balance'', ''work_life_balance''),
      (''career_growth'', ''career_growth''),
      (''leadership_management'', ''leadership''),
      (''innovation'', ''innovation'')]"

text \<open>
  One iteration of the loop over \<open>rating_fields.items()\<close> in \<open>rev2.py\<close>: the
  \<open>if\<close>/\<open>elif\<close> has no \<open>else\<close>, so a rating strictly between the thresholds
  leaves the dict unchanged.
\<close>

definition rev2_rating_step ::
  "review \<Rightarrow> (string \<times> sentiment) list \<Rightarrow> string \<times> string \<Rightarrow> (string \<times> sentiment) list" where
  "rev2_rating_step review themes ft =
     (case review (fst ft) of
        None \<Rightarrow> themes
      | Some rating \<Rightarrow>
          if is_int_or_float rating then
            if num_ge rating RATING_THRESHOLD_HIGH then dict_set themes (snd ft) Positive
            else if num_le rating RATING_THRESHOLD_LOW then dict_set themes (snd ft) Negative
            else themes
          else themes)"

definition rev2_analyze_numeric_ratings :: "review \<Rightarrow> (string \<times> sentiment) list" where
  "rev2_analyze_numeric_ratings review = foldl (rev2_rating_step review) [] rating_fields"

text \<open>The same loop in \<open>tt.py\<close>, which has the \<open>else\<close> branch.\<close>

definition tt_rating_step ::
  "review \<Rightarrow> (string \<times> sentiment) list \<Rightarrow> string \<times> string \<Rightarrow> (string \<times> sentiment) list" where
  "tt_rating_step review themes ft =
     (case review (fst ft) of
        None \<Rightarrow> themes
      | Some rating \<Rightarrow>
          if is_int_or_float rating then
            if num_ge rating RATING_THRESHOLD_HIGH then dict_set themes (snd ft) Positive
            else if num_le rating RATING_THRESHOLD_LOW then dict_set themes (snd ft) Negative
            else dict_set themes (snd ft) Neutral
          else themes)"

definition tt_analyze_numeric_ratings :: "review \<Rightarrow> (string \<times> sentiment) list" where
  "tt_analyze_numeric_ratings review = foldl (tt_rating_step review) [] rating_fields"

section \<open>String primitives\<close>

text \<open>\<open>str.isdigit\<close>, \<open>str.lower\<close>, \<open>str.split(sep)\<close> and \<open>k in s\<close> on ASCII text.\<close>

definition isdigit :: "char \<Rightarrow> bool" where
  "isdigit c = (CHR ''0'' \<le> c \<and> c \<le> CHR ''9'')"

definition lower_char :: "char \<Rightarrow> char" where
  "lower_char c =
     (if CHR ''A'' \<le> c \<and> c \<le> CHR ''Z'' then char_of (of_char c + (32::nat)) else c)"

definition lower :: "string \<Rightarrow> string" where
  "lower s = map lower_char s"

fun split_on :: "char \<Rightarrow> string \<Rightarrow> string list" where
  "split_on sep [] = [[]]"
| "split_on sep (c # cs) =
     (if c = sep then [] # split_on sep cs
      else (case split_on sep cs of
              [] \<Rightarrow> [[c]]
            | p # ps \<Rightarrow> (c # p) # ps))"

fun startswith :: "string \<Rightarrow> string \<Rightarrow> bool" where
  "startswith [] s = True"
| "startswith (k # ks) [] = False"
| "startswith (k # ks) (c # cs) = (k = c \<and> startswith ks cs)"

fun py_in :: "string \<Rightarrow> string \<Rightarrow> bool" where
  "py_in k [] = (k = [])"
| "py_in k (c # cs) = (startswith k (c # cs) \<or> py_in k cs)"

text \<open>
  \<open>int(s)\<close> for a string that holds only ASCII digits (all the filter lets through):
  the empty string raises \<open>ValueError\<close>.
\<close>

definition digit_val :: "char \<Rightarrow> int" where
  "digit_val c = of_char c - 48"

definition int_of_digits :: "string \<Rightarrow> error + int" where
  "int_of_digits ds =
     (if ds = [] then Inl ValueError else Inr (foldl (\<lambda>a c. 10 * a + digit_val c) 0 ds))"

text \<open>A list comprehension whose element expression may raise: the first failure wins.\<close>

fun comprehension :: "('a \<Rightarrow> error + 'b) \<Rightarrow> 'a list \<Rightarrow> error + 'b list" where
  "comprehension f [] = Inr []"
| "comprehension f (x # xs) =
     (case f x of
        Inl e \<Rightarrow> Inl e
      | Inr y \<Rightarrow> (case comprehension f xs of Inl e \<Rightarrow> Inl e | Inr ys \<Rightarrow> Inr (y # ys)))"

section \<open>Salary classifier (\<open>_analyze_salary_range\<close>)\<close>

text \<open>
  \<open>values = [int(''.join(filter(str.isdigit, val))) for val in salary_range.split('-')]\<close>;
  \<open>split\<close> exists only on a string, any other value raises \<open>AttributeError\<close>.
\<close>

definition salary_values :: "pyval \<Rightarrow> error + int list" where
  "salary_values salary_range =
     (case salary_range of
        VStr s \<Rightarrow> comprehension (\<lambda>val. int_of_digits (filter isdigit val)) (split_on CHR ''-'' s)
      | _ \<Rightarrow> Inl AttributeError)"

text \<open>
  \<open>sum(values) / 2\<close> is a float division of a non-negative integer. It raises
  \<open>OverflowError\<close> when the quotient rounds beyond the largest double, that is from
  \<open>2^1025 - 2^971\<close> on. Otherwise the result is the quotient rounded to a double: exact
  below \<open>2^54\<close>, and above that far beyond both thresholds, so comparing the exact
  quotient with \<open>100000\<close>, \<open>90000\<close>, \<open>50000\<close> and \<open>45000\<close> gives what the float gives.
\<close>

definition avg_salary :: "int list \<Rightarrow> error + rat" where
  "avg_salary values =
     (if 2 ^ 1025 - 2 ^ 971 \<le> sum_list values then Inl OverflowError
      else Inr (of_int (sum_list values) / 2))"

text \<open>The body of the \<open>try\<close> in \<open>rev2.py\<close>.\<close>

definition rev2_salary_try :: "pyval \<Rightarrow> error + sentiment" where
  "rev2_salary_try salary_range =
     (case salary_values salary_range of
        Inl e \<Rightarrow> Inl e
      | Inr values \<Rightarrow>
          if length values = 2 then
            (case avg_salary values of
               Inl e \<Rightarrow> Inl e
             | Inr avg \<Rightarrow>
                 if avg > 100000 then Inr Positive
                 else if avg < 50000 then Inr Negative
                 else Inr Neutral)
          else Inr Neutral)"

text \<open>
  The whole function: the guard on empty arguments, then the \<open>try\<close> with its bare
  \<open>except\<close>, which turns every exception into \<open>neutral\<close>.
\<close>

definition rev2_analyze_salary_range :: "pyval \<Rightarrow> pyval \<Rightarrow> error + sentiment" where
  "rev2_analyze_salary_range salary_range currency =
     (if \<not> truthy salary_range \<or> \<not> truthy currency then Inr Neutral
      else (case rev2_salary_try salary_range of
              Inl e \<Rightarrow> Inr Neutral
            | Inr s \<Rightarrow> Inr s))"

text \<open>
  \<open>tt.py\<close> adds the location: \<open>if location and 'remote' in location.lower()\<close>, evaluated
  inside the \<open>try\<close> and only when there are exactly two values. A non-empty location that
  is not a string has no \<open>lower\<close>.
\<close>

definition location_is_remote :: "pyval \<Rightarrow> error + bool" where
  "location_is_remote location =
     (if \<not> truthy location then Inr False
      else (case location of
              VStr l \<Rightarrow> Inr (py_in ''remote'' (lower l))
            | _ \<Rightarrow> Inl AttributeError))"

definition tt_salary_try :: "pyval \<Rightarrow> pyval \<Rightarrow> error + sentiment" where
  "tt_salary_try salary_range location =
     (case salary_values salary_range of
        Inl e \<Rightarrow> Inl e
      | Inr values \<Rightarrow>
          if length values = 2 then
            (case avg_salary values of
               Inl e \<Rightarrow> Inl e
             | Inr avg \<Rightarrow>
                 (case location_is_remote location of
                    Inl e \<Rightarrow> Inl e
                  | Inr remote \<Rightarrow>
                      let high_threshold = (if remote then 90000 else 100000);
                          low_threshold = (if remote then 45000 else 50000)
                      in if avg > high_threshold then Inr Positive
                         else if avg < low_threshold then Inr Negative
                         else Inr Neutral))
          else Inr Neutral)"

definition tt_analyze_salary_range :: "pyval \<Rightarrow> pyval \<Rightarrow> pyval \<Rightarrow> error + sentiment" where
  "tt_analyze_salary_range salary_range currency location =
     (if \<not> truthy salary_range \<or> \<not> truthy currency then Inr Neutral
      else (case tt_salary_try salary_range location of
              Inl e \<Rightarrow> Inr Neutral
            | Inr s \<Rightarrow> Inr s))"

section \<open>Theme extraction from text (\<open>_analyze_text\<close>)\<close>

text \<open>
  The sentiment scorer (NLTK's VADER) is an external library: it is the parameter
  \<open>sia\<close>, giving the compound score of a text. The score is a double and so are the
  literals \<open>0.05\<close> and \<open>-0.05\<close>; as no double lies between \<open>1/20\<close> and the double
  nearest to it, comparing with the literal and comparing with \<open>1/20\<close> agree.
\<close>

definition sentiment_of_compound :: "rat \<Rightarrow> sentiment" where
  "sentiment_of_compound compound =
     (if compound \<ge> 5 / 100 then Positive
      else if compound \<le> - (5 / 100) then Negative
      else Neutral)"

text \<open>\<open>any(keyword in text_lower for keyword in keywords)\<close>\<close>

definition any_keyword :: "string list \<Rightarrow> string \<Rightarrow> bool" where
  "any_keyword keywords text_lower = list_ex (\<lambda>keyword. py_in keyword text_lower) keywords"

text \<open>The flat keyword catalog of \<open>rev2.py\<close>, in the order of the dict literal.\<close>

definition rev2_themes :: "(string \<times> string list) list" where
  "rev2_themes =
     [(''work_culture'',
        [''culture'', ''environment'', ''atmosphere'', ''workplace'', ''team'', ''collaboration'',
         ''friendly'', ''inclusive'', ''diverse'', ''supportive'', ''transparency'', ''ethics'',
         ''values'', ''diversity'', ''inclusion'', ''respect'', ''belonging'', ''community'',
         ''social'', ''fun'', ''positive'', ''toxic'', ''politics'', ''bureaucracy'']),
      (''leadership'',
        [''leadership'', ''management'', ''direction'', ''strategy'', ''vision'', ''leader'',
         ''manager'', ''executive'', ''boss'', ''supervisor'', ''communication'', ''transparency'',
         ''decision'', ''guidance'', ''mentorship'', ''coaching'', ''feedback'', ''recognition'',
         ''micromanagement'', ''hierarchy'', ''direction'', ''clarity'']),
      (''compensation'',
        [''salary'', ''benefits'', ''pay'', ''compensation'', ''bonus'', ''package'', ''stock'',
         ''insurance'', ''retirement'', ''401k'', ''raise'', ''equity'', ''options'', ''rsu'',
         ''healthcare'', ''dental'', ''vision'', ''pto'', ''vacation'', ''leave'', ''perks'',
         ''allowance'', ''reimbursement'', ''overtime'', ''commission'']),
      (''work_life_balance'',
        [''balance'', ''flexibility'', ''hours'', ''schedule'', ''remote'', ''time'',
         ''wlb'', ''flexible'', ''workload'', ''overtime'', ''vacation'', ''burnout'',
         ''stress'', ''pressure'', ''deadline'', ''weekend'', ''holiday'', ''family'',
         ''personal'', ''hybrid'', ''work from home'', ''wfh'', ''commute'']),
      (''career_growth'',
        [''growth'', ''learning'', ''development'', ''opportunity'', ''promotion'', ''career'',
         ''training'', ''mentor'', ''skill'', ''advance'', ''progress'', ''education'',
         ''certification'', ''conference'', ''workshop'', ''upskill'', ''challenge'',
         ''responsibility'', ''exposure'', ''path'', ''trajectory'', ''potential'']),
      (''innovation'',
        [''innovation'', ''technology'', ''creative'', ''innovative'', ''cutting-edge'', ''modern'',
         ''tools'', ''tech'', ''startup'', ''agile'', ''future'', ''research'', ''development'',
         ''experimentation'', ''breakthrough'', ''transformation'', ''digital'', ''automation'',
         ''ai'', ''machine learning'', ''cloud'', ''stack'']),
      (''job_security'',
        [''security'', ''stable'', ''stability'', ''layoff'', ''redundancy'', ''permanent'',
         ''contract'', ''temporary'', ''future'', ''uncertainty'', ''downsizing'', ''reorganization'',
         ''restructuring'', ''merger'', ''acquisition'', ''full-time'', ''part-time'']),
      (''office_environment'',
        [''office'', ''workspace'', ''facility'', ''amenities'', ''location'', ''parking'',
         ''cafeteria'', ''food'', ''gym'', ''ergonomic'', ''desk'', ''equipment'', ''supplies'',
         ''building'', ''infrastructure'', ''safety'', ''clean'', ''comfortable'']),
      (''team_dynamics'',
        [''team'', ''colleague'', ''coworker'', ''peer'', ''collaboration'', ''communication'',
         ''support'', ''morale'', ''conflict'', ''politics'', ''drama'', ''cooperation'',
         ''teamwork'', ''relationship'', ''dynamic'', ''interaction'', ''coordination'']),
      (''company_performance'',
        [''performance'', ''growth'', ''revenue'', ''profit'', ''market'', ''competitor'',
         ''industry'', ''success'', ''failure'', ''strategy'', ''direction'', ''leadership'',
         ''management'', ''vision'', ''mission'', ''goal'', ''objective'', ''target'']),
      (''diversity_inclusion'',
        [''diversity'', ''inclusion'', ''equality'', ''equity'', ''discrimination'', ''bias'',
         ''harassment'', ''representation'', ''minority'', ''gender'', ''race'', ''age'',
         ''disability'', ''lgbt'', ''culture'', ''background'', ''perspective'']),
      (''project_management'',
        [''project'', ''deadline'', ''timeline'', ''planning'', ''execution'', ''delivery'',
         ''scrum'', ''agile'', ''waterfall'', ''methodology'', ''process'', ''workflow'',
         ''coordination'', ''organization'', ''requirement'', ''specification''])]"

text \<open>
  \<open>_analyze_text\<close> of \<open>rev2.py\<close>: an empty (falsy) text gives no themes; \<open>text.lower()\<close>
  raises \<open>AttributeError\<close> on a non-empty value that is not a string; otherwise the
  themes are those with a keyword occurring in the lower-cased text, in catalog order.
\<close>

definition rev2_find_themes :: "string \<Rightarrow> string list" where
  "rev2_find_themes text_lower =
     map fst (filter (\<lambda>(theme, keywords). any_keyword keywords text_lower) rev2_themes)"

definition rev2_analyze_text :: "(string \<Rightarrow> rat) \<Rightarrow> pyval \<Rightarrow> error + (string list \<times> sentiment)" where
  "rev2_analyze_text sia text =
     (if \<not> truthy text then Inr ([], Neutral)
      else (case text of
              VStr s \<Rightarrow>
                let text_lower = lower s;
                    sentiment = sentiment_of_compound (sia s);
                    identified_themes = rev2_find_themes text_lower
                in Inr (identified_themes, sentiment)
            | _ \<Rightarrow> Inl AttributeError))"

text \<open>The per-polarity keyword catalog of \<open>tt.py\<close>.\<close>

definition tt_themes :: "(string \<times> (sentiment \<times> string list) list) list" where
  "tt_themes =
     [(''work_culture'',
        [(Positive, [''collaborative'', ''inclusive'', ''supportive'', ''friendly'', ''positive'']),
         (Negative, [''toxic'', ''hostile'', ''political'', ''bureaucratic'', ''unfriendly'']),
         (Neutral, [''formal'', ''casual'', ''traditional'', ''startup-like'', ''corporate''])]),
      (''leadership'',
        [(Positive, [''transparent'', ''inspiring'', ''approachable'', ''effective'', ''visionary'']),
         (Negative, [''micromanaging'', ''unclear'', ''disorganized'', ''absent'', ''poor'']),
         (Neutral, [''hands-off'', ''structured'', ''hierarchical'', ''decentralized''])]),
      (''compensation'',
        [(Positive, [''competitive'', ''generous'', ''excellent'', ''comprehensive'', ''above-market'']),
         (Negative, [''low'', ''below-market'', ''inadequate'', ''unfair'', ''poor'']),
         (Neutral, [''standard'', ''industry-average'', ''market-rate'', ''typical''])]),
      (''work_life_balance'',
        [(Positive, [''flexible'', ''balanced'', ''accommodating'', ''reasonable'', ''great'']),
         (Negative, [''demanding'', ''stressful'', ''burnout'', ''overwhelming'', ''poor'']),
         (Neutral, [''structured'', ''predictable'', ''regular'', ''standard''])]),
      (''career_growth'',
        [(Positive, [''excellent'', ''promising'', ''abundant'', ''clear'', ''supported'']),
         (Negative, [''limited'', ''stagnant'', ''unclear'', ''rare'', ''nonexistent'']),
         (Neutral, [''steady'', ''gradual'', ''traditional'', ''standard''])]),
      (''innovation'',
        [(Positive, [''cutting-edge'', ''innovative'', ''advanced'', ''modern'', ''progressive'']),
         (Negative, [''outdated'', ''legacy'', ''behind'', ''obsolete'', ''stagnant'']),
         (Neutral, [''established'', ''stable'', ''conventional'', ''standard''])])]"

text \<open>\<open>identified_themes[sentiment].append(theme)\<close> on a \<open>defaultdict(list)\<close>.\<close>

fun dict_append :: "('k \<times> 'v list) list \<Rightarrow> 'k \<Rightarrow> 'v \<Rightarrow> ('k \<times> 'v list) list" where
  "dict_append [] k v = [(k, [v])]"
| "dict_append ((k', vs) # d) k v =
     (if k' = k then (k', vs @ [v]) # d else (k', vs) # dict_append d k v)"

definition tt_match_theme ::
  "string \<Rightarrow> (sentiment \<times> string list) list \<Rightarrow> string \<times> (sentiment \<times> string list) list \<Rightarrow>
   (sentiment \<times> string list) list" where
  "tt_match_theme text_lower identified_themes tk =
     foldl (\<lambda>d (sentiment, keywords).
              if any_keyword keywords text_lower then dict_append d sentiment (fst tk) else d)
       identified_themes (snd tk)"

definition tt_find_themes :: "string \<Rightarrow> (sentiment \<times> string list) list" where
  "tt_find_themes text_lower = foldl (tt_match_theme text_lower) [] tt_themes"

text \<open>
  \<open>_analyze_text\<close> of \<open>tt.py\<close>. The tokens of \<open>word_tokenize\<close> are computed and never
  used; the result is the dict from polarity to the themes matched under that polarity's
  keywords, and the overall sentiment.
\<close>

definition tt_analyze_text ::
  "(string \<Rightarrow> rat) \<Rightarrow> pyval \<Rightarrow> error + ((sentiment \<times> string list) list \<times> sentiment)" where
  "tt_analyze_text sia text =
     (if \<not> truthy text then Inr ([], Neutral)
      else (case text of
              VStr s \<Rightarrow>
                let text_lower = lower s;
                    overall_sentiment = sentiment_of_compound (sia s);
                    identified_themes = tt_find_themes text_lower
                in Inr (identified_themes, overall_sentiment)
            | _ \<Rightarrow> Inl AttributeError))"

section \<open>Review analyzer (\<open>analyze_review\<close>)\<close>

record analysis =
  positive :: "string list"
  negative :: "string list"
  neutral :: "string list"

text \<open>\<open>result[sentiment]\<close> and \<open>result[sentiment].append(theme)\<close>\<close>

fun bucket :: "sentiment \<Rightarrow> analysis \<Rightarrow> string list" where
  "bucket Positive r = positive r"
| "bucket Negative r = negative r"
| "bucket Neutral r = neutral r"

fun append_to :: "analysis \<Rightarrow> sentiment \<Rightarrow> string \<Rightarrow> analysis" where
  "append_to r Positive theme = r\<lparr>positive := positive r @ [theme]\<rparr>"
| "append_to r Negative theme = r\<lparr>negative := negative r @ [theme]\<rparr>"
| "append_to r Neutral theme = r\<lparr>neutral := neutral r @ [theme]\<rparr>"

text \<open>A loop whose body may raise: the first exception ends it.\<close>

fun for_loop :: "('s \<Rightarrow> 'a \<Rightarrow> error + 's) \<Rightarrow> 's \<Rightarrow> 'a list \<Rightarrow> error + 's" where
  "for_loop body s [] = Inr s"
| "for_loop body s (x # xs) =
     (case body s x of Inl e \<Rightarrow> Inl e | Inr s' \<Rightarrow> for_loop body s' xs)"

text \<open>\<open>sorted(list(set(xs)))\<close> on strings, which Python orders by code point.\<close>

definition sorted_set :: "string list \<Rightarrow> string list" where
  "sorted_set xs = sort (remdups xs)"

definition dedup_sort :: "analysis \<Rightarrow> analysis" where
  "dedup_sort result =
     \<lparr>positive = sorted_set (positive result),
      negative = sorted_set (negative result),
      neutral = sorted_set (neutral result)\<rparr>"

definition add_ratings :: "analysis \<Rightarrow> (string \<times> sentiment) list \<Rightarrow> analysis" where
  "add_ratings result rating_themes =
     foldl (\<lambda>res (theme, sentiment). append_to res sentiment theme) result rating_themes"

text \<open>
  \<open>rev2.py\<close>: the salary is classified only when both \<open>compensation_range\<close> and
  \<open>currency\<close> are keys of the review.
\<close>

definition rev2_add_salary :: "review \<Rightarrow> analysis \<Rightarrow> error + analysis" where
  "rev2_add_salary review result =
     (case (review ''compensation_range'', review ''currency'') of
        (Some salary_range, Some currency) \<Rightarrow>
          (case rev2_analyze_salary_range salary_range currency of
             Inl e \<Rightarrow> Inl e
           | Inr salary_sentiment \<Rightarrow> Inr (append_to result salary_sentiment ''compensation''))
      | _ \<Rightarrow> Inr result)"

text \<open>
  One iteration of the loop over \<open>['headline', 'pros', 'cons']\<close> in \<open>rev2.py\<close>:
  \<open>pros\<close> themes go to \<open>positive\<close>, \<open>cons\<close> themes to \<open>negative\<close>, headline themes to
  the detected sentiment.
\<close>

definition rev2_text_field :: "(string \<Rightarrow> rat) \<Rightarrow> review \<Rightarrow> analysis \<Rightarrow> string \<Rightarrow> error + analysis" where
  "rev2_text_field sia review result field =
     (case review field of
        None \<Rightarrow> Inr result
      | Some text \<Rightarrow>
          if \<not> truthy text then Inr result
          else (case rev2_analyze_text sia text of
                  Inl e \<Rightarrow> Inl e
                | Inr (themes, sentiment) \<Rightarrow>
                    Inr (foldl (\<lambda>res theme.
                                  if field = ''pros'' then append_to res Positive theme
                                  else if field = ''cons'' then append_to res Negative theme
                                  else append_to res sentiment theme)
                           result themes)))"

definition rev2_analyze_review :: "(string \<Rightarrow> rat) \<Rightarrow> review \<Rightarrow> error + analysis" where
  "rev2_analyze_review sia review =
     (let result = \<lparr>positive = [], negative = [], neutral = []\<rparr>;
          result = add_ratings result (rev2_analyze_numeric_ratings review)
      in case rev2_add_salary review result of
           Inl e \<Rightarrow> Inl e
         | Inr result \<Rightarrow>
             (case for_loop (rev2_text_field sia review) result [''headline'', ''pros'', ''cons''] of
                Inl e \<Rightarrow> Inl e
              | Inr result \<Rightarrow> Inr (dedup_sort result)))"

text \<open>
  \<open>tt.py\<close>: the salary is classified whenever \<open>compensation_range\<close> is a key;
  a missing currency defaults to \<open>'USD'\<close> and a missing location to \<open>None\<close>.
\<close>

definition tt_add_salary :: "review \<Rightarrow> analysis \<Rightarrow> error + analysis" where
  "tt_add_salary review result =
     (case review ''compensation_range'' of
        Some salary_range \<Rightarrow>
          (case tt_analyze_salary_range salary_range
                  (case review ''currency'' of None \<Rightarrow> VStr ''USD'' | Some c \<Rightarrow> c)
                  (case review ''location'' of None \<Rightarrow> VNone | Some l \<Rightarrow> l) of
             Inl e \<Rightarrow> Inl e
           | Inr salary_sentiment \<Rightarrow> Inr (append_to result salary_sentiment ''compensation''))
      | None \<Rightarrow> Inr result)"

definition text_fields :: "(string \<times> sentiment option) list" where
  "text_fields = [(''headline'', None), (''pros'', Some Positive), (''cons'', Some Negative)]"

text \<open>
  One iteration of the loop over \<open>text_fields.items()\<close> in \<open>tt.py\<close>: with a forced
  sentiment every matched theme goes to it, otherwise each theme goes to the polarity of
  the keyword list it matched.
\<close>

definition tt_text_field ::
  "(string \<Rightarrow> rat) \<Rightarrow> review \<Rightarrow> analysis \<Rightarrow> string \<times> sentiment option \<Rightarrow> error + analysis" where
  "tt_text_field sia review result ff =
     (case review (fst ff) of
        None \<Rightarrow> Inr result
      | Some text \<Rightarrow>
          if \<not> truthy text then Inr result
          else (case tt_analyze_text sia text of
                  Inl e \<Rightarrow> Inl e
                | Inr (themes_by_sentiment, detected_sentiment) \<Rightarrow>
                    Inr (foldl (\<lambda>res (sentiment, themes).
                                  foldl (\<lambda>res theme.
                                           case snd ff of
                                             Some forced_sentiment \<Rightarrow>
                                               append_to res forced_sentiment theme
                                           | None \<Rightarrow> append_to res sentiment theme)
                                    res themes)
                           result themes_by_sentiment)))"

definition tt_analyze_review :: "(string \<Rightarrow> rat) \<Rightarrow> review \<Rightarrow> error + analysis" where
  "tt_analyze_review sia review =
     (let result = \<lparr>positive = [], negative = [], neutral = []\<rparr>;
          result = add_ratings result (tt_analyze_numeric_ratings review)
      in case tt_add_salary review result of
           Inl e \<Rightarrow> Inl e
         | Inr result \<Rightarrow>
             (case for_loop (tt_text_field sia review) result text_fields of
                Inl e \<Rightarrow> Inl e
              | Inr result \<Rightarrow> Inr (dedup_sort result)))"

section \<open>Floating point\<close>

text \<open>
  Percentages are Python floats (IEEE binary64). A float is modelled by the rational number
  it denotes, and every arithmetic operation rounds the exact result to the nearest float,
  ties to even. The rounding below is that of the normal range (magnitudes from \<open>2^-1022\<close>
  up to \<open>2^1024\<close>); the quotients and percentages of a corpus stay inside it.
\<close>

fun ilog2 :: "nat \<Rightarrow> nat" where
  "ilog2 n = (if n < 2 then 0 else Suc (ilog2 (n div 2)))"

declare ilog2.simps [simp del]

definition pow2 :: "int \<Rightarrow> rat" where
  "pow2 e = (if 0 \<le> e then 2 ^ nat e else 1 / 2 ^ nat (- e))"

definition round_half_even :: "rat \<Rightarrow> int" where
  "round_half_even x =
     (let f = \<lfloor>x\<rfloor>; d = x - of_int f
      in if d < 1 / 2 then f
         else if 1 / 2 < d then f + 1
         else if even f then f else f + 1)"

text \<open>The exponent \<open>e\<close> with \<open>2^e \<le> x < 2^(e+1)\<close>, for positive \<open>x\<close>.\<close>

definition binade :: "rat \<Rightarrow> int" where
  "binade x =
     (if 1 \<le> x then int (ilog2 (nat \<lfloor>x\<rfloor>))
      else - int (ilog2 (nat (\<lceil>1 / x\<rceil> - 1))) - 1)"

text \<open>Rounding to 53 significant bits.\<close>

definition float_round_pos :: "rat \<Rightarrow> rat" where
  "float_round_pos x =
     (let e = binade x - 52
      in of_int (round_half_even (x / pow2 e)) * pow2 e)"

definition float_round :: "rat \<Rightarrow> rat" where
  "float_round x =
     (if x = 0 then 0
      else if x < 0 then - float_round_pos (- x)
      else float_round_pos x)"

definition float_add :: "rat \<Rightarrow> rat \<Rightarrow> rat" where
  "float_add a b = float_round (a + b)"

definition float_sub :: "rat \<Rightarrow> rat \<Rightarrow> rat" where
  "float_sub a b = float_round (a - b)"

definition float_mul :: "rat \<Rightarrow> rat \<Rightarrow> rat" where
  "float_mul a b = float_round (a * b)"

text \<open>\<open>count / total_reviews\<close> on two ints: true division, which raises on a zero divisor.\<close>

definition int_truediv :: "nat \<Rightarrow> nat \<Rightarrow> error + rat" where
  "int_truediv a b =
     (if b = 0 then Inl ZeroDivisionError else Inr (float_round (of_nat a / of_nat b)))"

text \<open>\<open>(count / total_reviews) * 100\<close>\<close>

definition percent :: "nat \<Rightarrow> nat \<Rightarrow> error + rat" where
  "percent a total_reviews =
     (case int_truediv a total_reviews of
        Inl e \<Rightarrow> Inl e
      | Inr q \<Rightarrow> Inr (float_mul q 100))"

section \<open>Rendering a theme (\<open>_generate_theme_text\<close>)\<close>

text \<open>\<open>str.title()\<close> on ASCII: a letter is upper-cased after a non-letter, lower-cased after a letter.\<close>

definition isalpha :: "char \<Rightarrow> bool" where
  "isalpha c = ((CHR ''a'' \<le> c \<and> c \<le> CHR ''z'') \<or> (CHR ''A'' \<le> c \<and> c \<le> CHR ''Z''))"

definition upper_char :: "char \<Rightarrow> char" where
  "upper_char c =
     (if CHR ''a'' \<le> c \<and> c \<le> CHR ''z'' then char_of (of_char c - (32::nat)) else c)"

fun title_from :: "bool \<Rightarrow> string \<Rightarrow> string" where
  "title_from prev [] = []"
| "title_from prev (c # cs) =
     (if isalpha c then (if prev then lower_char c else upper_char c) # title_from True cs
      else c # title_from False cs)"

definition title :: "string \<Rightarrow> string" where
  "title s = title_from False s"

definition replace_char :: "char \<Rightarrow> char \<Rightarrow> string \<Rightarrow> string" where
  "replace_char a b s = map (\<lambda>c. if c = a then b else c) s"

text \<open>\<open>str(n)\<close> for a natural number.\<close>

definition digit_char :: "nat \<Rightarrow> char" where
  "digit_char d = char_of (48 + d)"

fun decimal :: "nat \<Rightarrow> string" where
  "decimal n = (if n < 10 then [digit_char n] else decimal (n div 10) @ [digit_char (n mod 10)])"

declare decimal.simps [simp del]

text \<open>
  \<open>f"{percentage:.1f}"\<close> for a non-negative float: the exact value is rounded to one
  decimal, ties to even.
\<close>

definition tenths :: "rat \<Rightarrow> nat" where
  "tenths percentage = nat (round_half_even (percentage * 10))"

definition format_1f :: "rat \<Rightarrow> string" where
  "format_1f percentage =
     decimal (tenths percentage div 10) @ ''.'' @ [digit_char (tenths percentage mod 10)]"

definition rev2_theme_texts :: "(string \<times> string) list" where
  "rev2_theme_texts =
     [(''work_culture'', ''Strong company culture and positive work environment''),
      (''diversity'', ''Inclusive workplace with strong diversity initiatives''),
      (''ethics'', ''Strong ethical practices and corporate values''),
      (''social_impact'', ''Meaningful social impact and community engagement''),
      (''collaboration'', ''Collaborative and team-oriented environment''),
      (''leadership'', ''Effective leadership and management team''),
      (''communication'', ''Clear communication and transparency from management''),
      (''strategy'', ''Strong strategic direction and company vision''),
      (''mentorship'', ''Quality mentorship and professional guidance''),
      (''recognition'', ''Good employee recognition and appreciation practices''),
      (''compensation'', ''Competitive compensation and benefits package''),
      (''equity'', ''Attractive equity and stock options''),
      (''healthcare'', ''Comprehensive healthcare and wellness benefits''),
      (''retirement'', ''Strong retirement and financial benefits''),
      (''perks'', ''Valuable workplace perks and amenities''),
      (''work_life_balance'', ''Good work-life balance and flexible scheduling''),
      (''remote_work'', ''Effective remote work policies and support''),
      (''time_off'', ''Generous vacation and time-off policies''),
      (''workload'', ''Manageable workload and reasonable expectations''),
      (''flexibility'', ''Flexible work arrangements and scheduling''),
      (''career_growth'', ''Excellent career growth and learning opportunities''),
      (''training'', ''Comprehensive training and development programs''),
      (''skills_development'', ''Strong focus on skills development and learning''),
      (''promotion'', ''Clear promotion paths and advancement opportunities''),
      (''education'', ''Good educational benefits and learning resources''),
      (''innovation'', ''Strong focus on innovation and modern technologies''),
      (''project_variety'', ''Diverse and interesting project opportunities''),
      (''creativity'', ''Encouragement of creativity and new ideas''),
      (''tools'', ''Access to modern tools and technologies''),
      (''autonomy'', ''High degree of autonomy and decision-making freedom''),
      (''office_environment'', ''Well-designed and comfortable office space''),
      (''equipment'', ''High-quality equipment and resources''),
      (''location'', ''Convenient office location and accessibility''),
      (''facilities'', ''Great office facilities and amenities''),
      (''safety'', ''Strong workplace safety and security measures''),
      (''team_quality'', ''High-caliber colleagues and strong team dynamics''),
      (''peer_support'', ''Supportive peer relationships and teamwork''),
      (''team_spirit'', ''Strong team spirit and camaraderie''),
      (''knowledge_sharing'', ''Good knowledge sharing and collaboration''),
      (''team_diversity'', ''Diverse and inclusive team composition''),
      (''company_stability'', ''Strong company stability and market position''),
      (''growth_potential'', ''Excellent company growth and future prospects''),
      (''job_security'', ''Good job security and stability''),
      (''market_position'', ''Strong market presence and industry standing''),
      (''financial_health'', ''Solid financial performance and stability''),
      (''client_relations'', ''Positive client relationships and interactions''),
      (''project_management'', ''Effective project management practices''),
      (''deadlines'', ''Reasonable deadlines and project timelines''),
      (''client_quality'', ''High-quality clients and project opportunities''),
      (''workflow'', ''Efficient workflow and processes'')]"

definition tt_theme_texts :: "(string \<times> string) list" where
  "tt_theme_texts =
     [(''work_culture'', ''Company culture and work environment''),
      (''leadership'', ''Leadership and management approach''),
      (''compensation'', ''Compensation and benefits package''),
      (''work_life_balance'', ''Work-life balance practices''),
      (''career_growth'', ''Career development opportunities''),
      (''innovation'', ''Innovation and technological advancement''),
      (''work_structure'', ''Organizational structure and processes''),
      (''company_size'', ''Company size and operational scale''),
      (''industry_position'', ''Position within the industry''),
      (''market_focus'', ''Market focus and business approach''),
      (''project_complexity'', ''Project scope and complexity''),
      (''team_structure'', ''Team organization and dynamics''),
      (''communication_style'', ''Communication patterns and practices''),
      (''decision_making'', ''Decision-making processes''),
      (''change_management'', ''Approach to change and adaptation''),
      (''work_pace'', ''Work pace and delivery expectations'')]"

text \<open>\<open>theme_texts.get(theme, theme.replace('_', ' ').title())\<close>\<close>

definition describe :: "(string \<times> string) list \<Rightarrow> string \<Rightarrow> string" where
  "describe theme_texts theme =
     (case map_of theme_texts theme of
        Some text \<Rightarrow> text
      | None \<Rightarrow> title (replace_char CHR ''_'' CHR '' '' theme))"

definition generate_theme_text :: "(string \<times> string) list \<Rightarrow> string \<Rightarrow> rat \<Rightarrow> string" where
  "generate_theme_text theme_texts theme percentage =
     describe theme_texts theme @ '' ('' @ format_1f percentage @ ''% of reviews)''"

definition rev2_generate_theme_text :: "string \<Rightarrow> rat \<Rightarrow> string" where
  "rev2_generate_theme_text = generate_theme_text rev2_theme_texts"

definition tt_generate_theme_text :: "string \<Rightarrow> rat \<Rightarrow> string" where
  "tt_generate_theme_text = generate_theme_text tt_theme_texts"

section \<open>The sort key of a rendered line\<close>

text \<open>
  \<open>float(x.split('(')[1].rstrip('% of reviews)'))\<close>: the second piece of the split
  (\<open>IndexError\<close> when there is no parenthesis), stripped on the right of every character
  of the argument, read as a float. \<open>float\<close> is modelled on plain decimal numerals, the
  only strings the renderer produces here; anything else is a \<open>ValueError\<close>.
\<close>

definition rstrip :: "string \<Rightarrow> string \<Rightarrow> string" where
  "rstrip chars s = rev (dropWhile (\<lambda>c. c \<in> set chars) (rev s))"

definition nat_of_digits :: "string \<Rightarrow> nat" where
  "nat_of_digits ds = foldl (\<lambda>a c. 10 * a + (of_char c - 48)) 0 ds"

definition py_float :: "string \<Rightarrow> error + rat" where
  "py_float s =
     (let ip = takeWhile (\<lambda>c. c \<noteq> CHR ''.'') s;
          fp = drop 1 (dropWhile (\<lambda>c. c \<noteq> CHR ''.'') s)
      in if (\<forall>c \<in> set ip. isdigit c) \<and> (\<forall>c \<in> set fp. isdigit c) \<and> ip @ fp \<noteq> []
         then Inr (float_round (of_nat (nat_of_digits (ip @ fp)) / 10 ^ length fp))
         else Inl ValueError)"

definition sort_key_of :: "string \<Rightarrow> error + rat" where
  "sort_key_of x =
     (case split_on CHR ''('' x of
        p0 # p1 # ps \<Rightarrow> py_float (rstrip ''% of reviews)'' p1)
      | _ \<Rightarrow> Inl IndexError)"

text \<open>
  \<open>sorted(xs, key=..., reverse=True)\<close>: the keys are computed first, in list order; the
  sort is stable, and \<open>reverse=True\<close> keeps the original order of equal keys.
\<close>

definition sorted_by_percentage :: "string list \<Rightarrow> error + string list" where
  "sorted_by_percentage xs =
     (case comprehension sort_key_of xs of
        Inl e \<Rightarrow> Inl e
      | Inr ks \<Rightarrow> Inr (map snd (sort_key (\<lambda>kx. - fst kx) (zip ks xs))))"

section \<open>Corpus aggregator (\<open>generate_summary\<close>)\<close>

text \<open>\<open>defaultdict(int)\<close>: \<open>d[k] += 1\<close> and \<open>d.get(k, 0)\<close>.\<close>

fun dict_incr :: "(string \<times> nat) list \<Rightarrow> string \<Rightarrow> (string \<times> nat) list" where
  "dict_incr [] k = [(k, 1)]"
| "dict_incr ((k', c) # d) k = (if k' = k then (k', c + 1) # d else (k', c) # dict_incr d k)"

definition dict_get :: "(string \<times> nat) list \<Rightarrow> string \<Rightarrow> nat" where
  "dict_get d k = (case map_of d k of None \<Rightarrow> 0 | Some c \<Rightarrow> c)"

record tally =
  positive_counts :: "(string \<times> nat) list"
  negative_counts :: "(string \<times> nat) list"
  neutral_counts :: "(string \<times> nat) list"

definition empty_tally :: tally where
  "empty_tally = \<lparr>positive_counts = [], negative_counts = [], neutral_counts = []\<rparr>"

text \<open>
  The inner loops of the first pass: for the three buckets of one analysis, in the order
  \<open>positive\<close>, \<open>negative\<close>, \<open>neutral\<close>, \<open>all_themes[sentiment][theme] += 1\<close>.
\<close>

definition count_analysis :: "tally \<Rightarrow> analysis \<Rightarrow> tally" where
  "count_analysis all_themes a =
     \<lparr>positive_counts = foldl dict_incr (positive_counts all_themes) (positive a),
      negative_counts = foldl dict_incr (negative_counts all_themes) (negative a),
      neutral_counts = foldl dict_incr (neutral_counts all_themes) (neutral a)\<rparr>"

definition count_review ::
  "(review \<Rightarrow> error + analysis) \<Rightarrow> tally \<Rightarrow> review \<Rightarrow> error + tally" where
  "count_review analyze all_themes review =
     (case analyze review of
        Inl e \<Rightarrow> Inl e
      | Inr a \<Rightarrow> Inr (count_analysis all_themes a))"

text \<open>
  Dominant sentiment and inclusion in \<open>rev2.py\<close>, from the three percentages:
  \<open>None\<close> when the theme is left out of \<open>theme_sentiments\<close>.
\<close>

definition rev2_dominant :: "rat \<Rightarrow> rat \<Rightarrow> rat \<Rightarrow> sentiment \<times> rat" where
  "rev2_dominant pos_pct neg_pct neu_pct =
     (let max_pct = max pos_pct (max neg_pct neu_pct)
      in if max_pct = pos_pct \<and> max_pct > 0 then (Positive, pos_pct)
         else if max_pct = neg_pct \<and> max_pct > 0 then (Negative, neg_pct)
         else (Neutral, neu_pct))"

definition rev2_decide :: "rat \<Rightarrow> rat \<Rightarrow> rat \<Rightarrow> (sentiment \<times> rat) option" where
  "rev2_decide pos_pct neg_pct neu_pct =
     (let max_pct = max pos_pct (max neg_pct neu_pct)
      in if max_pct \<ge> 20 then Some (rev2_dominant pos_pct neg_pct neu_pct) else None)"

text \<open>The same step in \<open>tt.py\<close>.\<close>

definition tt_dominant :: "rat \<Rightarrow> rat \<Rightarrow> rat \<Rightarrow> sentiment \<times> rat" where
  "tt_dominant pos_pct neg_pct neu_pct =
     (if max pos_pct neg_pct < 30 \<or> \<bar>float_sub pos_pct neg_pct\<bar> < 15
        then (Neutral, float_add neu_pct (min pos_pct neg_pct))
      else if pos_pct > neg_pct then (Positive, pos_pct)
      else (Negative, neg_pct))"

definition tt_decide :: "rat \<Rightarrow> rat \<Rightarrow> rat \<Rightarrow> (sentiment \<times> rat) option" where
  "tt_decide pos_pct neg_pct neu_pct =
     (let dp = tt_dominant pos_pct neg_pct neu_pct
      in if snd dp \<ge> 15 then Some dp else None)"

text \<open>One iteration of the loop over \<open>all_unique_themes\<close>.\<close>

definition theme_step ::
  "(rat \<Rightarrow> rat \<Rightarrow> rat \<Rightarrow> (sentiment \<times> rat) option) \<Rightarrow> tally \<Rightarrow> nat \<Rightarrow>
   (string \<times> sentiment \<times> rat) list \<Rightarrow> string \<Rightarrow> error + (string \<times> sentiment \<times> rat) list" where
  "theme_step decide all_themes total_reviews theme_sentiments theme =
     (let pos_count = dict_get (positive_counts all_themes) theme;
          neg_count = dict_get (negative_counts all_themes) theme;
          neu_count = dict_get (neutral_counts all_themes) theme
      in case percent pos_count total_reviews of
           Inl e \<Rightarrow> Inl e
         | Inr pos_pct \<Rightarrow>
             (case percent neg_count total_reviews of
                Inl e \<Rightarrow> Inl e
              | Inr neg_pct \<Rightarrow>
                  (case percent neu_count total_reviews of
                     Inl e \<Rightarrow> Inl e
                   | Inr neu_pct \<Rightarrow>
                       (case decide pos_pct neg_pct neu_pct of
                          None \<Rightarrow> Inr theme_sentiments
                        | Some dp \<Rightarrow> Inr (dict_set theme_sentiments theme dp)))))"

text \<open>The lines of one polarity, in the order of \<open>theme_sentiments\<close>.\<close>

definition summary_lines ::
  "(string \<Rightarrow> rat \<Rightarrow> string) \<Rightarrow> (string \<times> sentiment \<times> rat) list \<Rightarrow> sentiment \<Rightarrow> string list" where
  "summary_lines render theme_sentiments s =
     map (\<lambda>(theme, sentiment, percentage). render theme percentage)
       (filter (\<lambda>(theme, sentiment, percentage). sentiment = s) theme_sentiments)"

text \<open>
  The function. \<open>analyze\<close>, \<open>decide\<close> and \<open>render\<close> are the three places where the two
  files differ. \<open>set_order\<close> is the order in which Python iterates over a set whose
  elements were inserted in the given sequence: the language leaves it unspecified, so it
  is a parameter of the model.
\<close>

definition generate_summary ::
  "(review \<Rightarrow> error + analysis) \<Rightarrow> (rat \<Rightarrow> rat \<Rightarrow> rat \<Rightarrow> (sentiment \<times> rat) option) \<Rightarrow>
   (string \<Rightarrow> rat \<Rightarrow> string) \<Rightarrow> (string list \<Rightarrow> string list) \<Rightarrow> review list \<Rightarrow> error + analysis" where
  "generate_summary analyze decide render set_order reviews =
     (case for_loop (count_review analyze) empty_tally reviews of
        Inl e \<Rightarrow> Inl e
      | Inr all_themes \<Rightarrow>
          let total_reviews = length reviews;
              all_unique_themes =
                set_order (map fst (positive_counts all_themes) @
                           map fst (negative_counts all_themes) @
                           map fst (neutral_counts all_themes))
          in case for_loop (theme_step decide all_themes total_reviews) [] all_unique_themes of
               Inl e \<Rightarrow> Inl e
             | Inr theme_sentiments \<Rightarrow>
                 (case sorted_by_percentage (summary_lines render theme_sentiments Positive) of
                    Inl e \<Rightarrow> Inl e
                  | Inr ps \<Rightarrow>
                      (case sorted_by_percentage (summary_lines render theme_sentiments Negative) of
                         Inl e \<Rightarrow> Inl e
                       | Inr ns \<Rightarrow>
                           (case sorted_by_percentage
                                   (summary_lines render theme_sentiments Neutral) of
                              Inl e \<Rightarrow> Inl e
                            | Inr us \<Rightarrow>
                                Inr \<lparr>positive = ps, negative = ns, neutral = us\<rparr>))))"

definition rev2_generate_summary ::
  "(string \<Rightarrow> rat) \<Rightarrow> (string list \<Rightarrow> string list) \<Rightarrow> review list \<Rightarrow> error + analysis" where
  "rev2_generate_summary sia =
     generate_summary (rev2_analyze_review sia) rev2_decide rev2_generate_theme_text"

definition tt_generate_summary ::
  "(string \<Rightarrow> rat) \<Rightarrow> (string list \<Rightarrow> string list) \<Rightarrow> review list \<Rightarrow> error + analysis" where
  "tt_generate_summary sia =
     generate_summary (tt_analyze_review sia) tt_decide tt_generate_theme_text"

text \<open>
  What is known of the set order: it lists every inserted element exactly once. Insertion
  order (\<open>remdups\<close> keeps the last occurrence, \<open>first_seen\<close> the first) is one such order,
  and the one CPython shows for keys whose hash slots collide.
\<close>

definition set_order_ok :: "(string list \<Rightarrow> string list) \<Rightarrow> bool" where
  "set_order_ok set_order = (\<forall>xs. set (set_order xs) = set xs \<and> distinct (set_order xs))"

definition first_seen :: "string list \<Rightarrow> string list" where
  "first_seen xs = rev (remdups (rev xs))"

section \<open>Sample inputs\<close>

text \<open>The review of the specification's end-to-end example.\<close>

definition example_review :: review where
  "example_review =
     [''work_life_balance'' \<mapsto> VInt 9,
      ''career_growth'' \<mapsto> VInt 8,
      ''leadership_management'' \<mapsto> VInt 7,
      ''innovation'' \<mapsto> VInt 9,
      ''compensation_range'' \<mapsto> VStr ''150000-200000'',
      ''currency'' \<mapsto> VStr ''USD'',
      ''pros'' \<mapsto> VStr ''excellent benefits'',
      ''cons'' \<mapsto> VStr ''tight deadlines'']"

text \<open>A scorer that finds every text neutral, for evaluating concrete reviews.\<close>

definition flat_scorer :: "string \<Rightarrow> rat" where
  "flat_scorer text = 0"

section \<open>Notions used in the statements\<close>

text \<open>The themes the rating classifier can emit, and all themes each analyzer can emit.\<close>

definition rating_themes :: "string list" where
  "rating_themes = map snd rating_fields"

definition rev2_known_themes :: "string list" where
  "rev2_known_themes = rating_themes @ [''compensation''] @ map fst rev2_themes"

definition tt_known_themes :: "string list" where
  "tt_known_themes = rating_themes @ [''compensation''] @ map fst tt_themes"

definition text_field_names :: "string list" where
  "text_field_names = [''headline'', ''pros'', ''cons'']"

text \<open>Every non-empty text field of the review holds a string.\<close>

definition text_typed :: "review \<Rightarrow> bool" where
  "text_typed review =
     (\<forall>f \<in> set text_field_names.
        case review f of
          None \<Rightarrow> True
        | Some v \<Rightarrow> truthy v \<longrightarrow> (case v of VStr s \<Rightarrow> True | _ \<Rightarrow> False))"

text \<open>The review has no text field with content.\<close>

definition no_text :: "review \<Rightarrow> bool" where
  "no_text review =
     (\<forall>f \<in> set text_field_names. case review f of None \<Rightarrow> True | Some v \<Rightarrow> \<not> truthy v)"

text \<open>No theme is in two buckets.\<close>

definition exclusive :: "analysis \<Rightarrow> bool" where
  "exclusive a =
     (set (positive a) \<inter> set (negative a) = {} \<and>
      set (positive a) \<inter> set (neutral a) = {} \<and>
      set (negative a) \<inter> set (neutral a) = {})"

text \<open>Every bucket is sorted and free of duplicates.\<close>

definition normalized :: "analysis \<Rightarrow> bool" where
  "normalized a =
     (\<forall>s. distinct (bucket s a) \<and> sorted (bucket s a))"

text \<open>The initial \<open>result\<close> of \<open>analyze_review\<close>.\<close>

definition empty_result :: analysis where
  "empty_result = \<lparr>positive = [], negative = [], neutral = []\<rparr>"

text \<open>A range text the salary classifier cannot parse into two numbers.\<close>

definition malformed_range :: "string \<Rightarrow> bool" where
  "malformed_range s =
     (s = [] \<or> length (split_on CHR ''-'' s) \<noteq> 2 \<or>
      (\<exists>p \<in> set (split_on CHR ''-'' s). filter isdigit p = []))"

text \<open>Reviews with conflicting and with malformed fields.\<close>

definition conflicting_review :: review where
  "conflicting_review = [''work_life_balance'' \<mapsto> VInt 9, ''cons'' \<mapsto> VStr ''Stressful'']"

definition ratings_only_review :: review where
  "ratings_only_review =
     [''work_life_balance'' \<mapsto> VInt 9,
      ''career_growth'' \<mapsto> VInt 2,
      ''innovation'' \<mapsto> VInt 5,
      ''compensation_range'' \<mapsto> VStr ''40000-50000'',
      ''currency'' \<mapsto> VStr ''USD'']"

definition malformed_review :: review where
  "malformed_review =
     [''work_life_balance'' \<mapsto> VStr ''high'',
      ''compensation_range'' \<mapsto> VStr ''not-a-range'',
      ''currency'' \<mapsto> VStr ''USD'',
      ''headline'' \<mapsto> VStr [],
      ''pros'' \<mapsto> VStr ''great team'']"

definition numeric_headline_review :: review where
  "numeric_headline_review = [''headline'' \<mapsto> VInt 5]"

definition unparsable_salary_review :: review where
  "unparsable_salary_review =
     [''compensation_range'' \<mapsto> VStr ''not-a-range'', ''currency'' \<mapsto> VStr ''USD'']"

section \<open>Notions used in the statements about the aggregator\<close>

fun counts_of :: "sentiment \<Rightarrow> tally \<Rightarrow> (string \<times> nat) list" where
  "counts_of Positive T = positive_counts T"
| "counts_of Negative T = negative_counts T"
| "counts_of Neutral T = neutral_counts T"

text \<open>
  The number of times the reviews of a corpus put a theme in a bucket (a review whose
  analysis raises counts for nothing).
\<close>

definition occurrences ::
  "(review \<Rightarrow> error + analysis) \<Rightarrow> sentiment \<Rightarrow> string \<Rightarrow> review list \<Rightarrow> nat" where
  "occurrences analyze s t rs =
     sum_list (map (\<lambda>r. case analyze r of Inl e \<Rightarrow> 0 | Inr a \<Rightarrow> count_list (bucket s a) t) rs)"

text \<open>The percentage the aggregator computes for a count: \<open>(count / total_reviews) * 100\<close>.\<close>

definition computed_percent :: "nat \<Rightarrow> nat \<Rightarrow> rat" where
  "computed_percent a total_reviews =
     float_mul (float_round (of_nat a / of_nat total_reviews)) 100"

text \<open>The verdict of the aggregator on a theme of a corpus, if it includes the theme.\<close>

definition verdict ::
  "(review \<Rightarrow> error + analysis) \<Rightarrow> (rat \<Rightarrow> rat \<Rightarrow> rat \<Rightarrow> (sentiment \<times> rat) option) \<Rightarrow>
   review list \<Rightarrow> string \<Rightarrow> (sentiment \<times> rat) option" where
  "verdict analyze decide rs t =
     decide (computed_percent (occurrences analyze Positive t rs) (length rs))
            (computed_percent (occurrences analyze Negative t rs) (length rs))
            (computed_percent (occurrences analyze Neutral t rs) (length rs))"

text \<open>The themes tallied for a corpus.\<close>

definition tallied :: "(review \<Rightarrow> error + analysis) \<Rightarrow> review list \<Rightarrow> string set" where
  "tallied analyze rs = {t. \<exists>s. 0 < occurrences analyze s t rs}"

text \<open>The percentage a rendered line shows, as the sort reads it back.\<close>

definition shown_percentage :: "string \<Rightarrow> rat" where
  "shown_percentage x = (case sort_key_of x of Inl e \<Rightarrow> 0 | Inr k \<Rightarrow> k)"

text \<open>A list of lines in descending order of the shown percentage.\<close>

definition descending :: "string list \<Rightarrow> bool" where
  "descending xs = sorted (map (\<lambda>x. - shown_percentage x) xs)"

text \<open>The verdict read from a tally, and the \<open>theme_sentiments\<close> it leads to.\<close>

definition tally_verdict ::
  "(rat \<Rightarrow> rat \<Rightarrow> rat \<Rightarrow> (sentiment \<times> rat) option) \<Rightarrow> tally \<Rightarrow> nat \<Rightarrow> string \<Rightarrow>
   (sentiment \<times> rat) option" where
  "tally_verdict decide T n t =
     decide (computed_percent (dict_get (positive_counts T) t) n)
            (computed_percent (dict_get (negative_counts T) t) n)
            (computed_percent (dict_get (neutral_counts T) t) n)"

definition included ::
  "(string \<Rightarrow> (sentiment \<times> rat) option) \<Rightarrow> string list \<Rightarrow> (string \<times> sentiment \<times> rat) list" where
  "included v themes =
     concat (map (\<lambda>t. case v t of None \<Rightarrow> [] | Some dp \<Rightarrow> [(t, dp)]) themes)"

text \<open>The lines of one polarity, sorted as the summary has them.\<close>

definition sorted_lines ::
  "(string \<Rightarrow> rat \<Rightarrow> string) \<Rightarrow> (string \<times> sentiment \<times> rat) list \<Rightarrow> sentiment \<Rightarrow> string list" where
  "sorted_lines render ts s =
     sort_key (\<lambda>x. - shown_percentage x) (summary_lines render ts s)"

text \<open>
  Two results of \<open>generate_summary\<close> that agree up to the order of lines showing the same
  percentage: the same exception, or summaries whose groups hold the same lines, each in
  descending order of the shown percentage, and identical wherever no two lines of the
  group show the same percentage.
\<close>

definition same_up_to_ties :: "error + analysis \<Rightarrow> error + analysis \<Rightarrow> bool" where
  "same_up_to_ties R R' =
     (case (R, R') of
        (Inl e, Inl e') \<Rightarrow> e = e'
      | (Inr S, Inr S') \<Rightarrow>
          (\<forall>s. mset (bucket s S) = mset (bucket s S') \<and>
               descending (bucket s S) \<and> descending (bucket s S') \<and>
               (distinct (map shown_percentage (bucket s S)) \<longrightarrow> bucket s S = bucket s S'))
      | _ \<Rightarrow> False)"

text \<open>A set order that depends on the elements only, not on their insertion order.\<close>

definition insertion_independent :: "(string list \<Rightarrow> string list) \<Rightarrow> bool" where
  "insertion_independent set_order = (\<forall>xs ys. set xs = set ys \<longrightarrow> set_order xs = set_order ys)"

definition sorted_order :: "string list \<Rightarrow> string list" where
  "sorted_order xs = sort (remdups xs)"

text \<open>Two reviews whose single themes get the same percentage.\<close>

definition balance_review :: review where
  "balance_review = [''work_life_balance'' \<mapsto> VInt 9]"

definition growth_review :: review where
  "growth_review = [''career_growth'' \<mapsto> VInt 9]"

text \<open>
  Corpora in which a theme occurs often enough in total but is left out of the summary:
  under two polarities in \<open>rev2.py\<close>, under \<open>positive\<close> alone in \<open>tt.py\<close>.
\<close>

definition low_balance_review :: review where
  "low_balance_review = [''work_life_balance'' \<mapsto> VInt 2]"

definition split_corpus :: "review list" where
  "split_corpus =
     [balance_review, low_balance_review, Map.empty, Map.empty, Map.empty, Map.empty]"

definition quarter_corpus :: "review list" where
  "quarter_corpus = [balance_review, Map.empty, Map.empty, Map.empty]"

definition fifth_corpus :: "review list" where
  "fifth_corpus = [balance_review, Map.empty, Map.empty, Map.empty, Map.empty]"

text \<open>
  The number of reviews of a corpus that mention a theme (their analysis has it in some
  bucket), and the largest of the three per-polarity counts of a theme.
\<close>

definition mentions :: "(review \<Rightarrow> error + analysis) \<Rightarrow> string \<Rightarrow> review list \<Rightarrow> nat" where
  "mentions analyze t rs =
     length (filter (\<lambda>r. case analyze r of
                            Inl e \<Rightarrow> False
                          | Inr a \<Rightarrow> t \<in> set (positive a @ negative a @ neutral a)) rs)"

definition largest_count :: "(review \<Rightarrow> error + analysis) \<Rightarrow> string \<Rightarrow> review list \<Rightarrow> nat" where
  "largest_count analyze t rs =
     max (occurrences analyze Positive t rs)
       (max (occurrences analyze Negative t rs) (occurrences analyze Neutral t rs))"

text \<open>\<open>100 * k / n\<close> reaches \<open>T\<close>, for a theme counted \<open>k > 0\<close> times among \<open>n\<close> reviews.\<close>

definition meets :: "nat \<Rightarrow> nat \<Rightarrow> nat \<Rightarrow> bool" where
  "meets T k n = (0 < k \<and> T * n \<le> 100 * k)"

text \<open>
  A summary shows a theme when one of its lines starts with the description of the theme,
  up to the parenthesis that holds the percentage.
\<close>

definition appears :: "(string \<times> string) list \<Rightarrow> analysis \<Rightarrow> string \<Rightarrow> bool" where
  "appears theme_texts S t =
     list_ex (\<lambda>x. takeWhile (\<lambda>c. c \<noteq> CHR ''('') x = describe theme_texts t @ '' '')
       (positive S @ negative S @ neutral S)"

text \<open>
  The corpus size up to which the percentages, computed in binary floating point, are
  shown to fall on the right side of the thresholds.
\<close>

definition max_reviews :: nat where
  "max_reviews = 1000000000000"

section \<open>Properties of the rating classifier\<close>

lemma map_of_dict_set:
  "map_of (dict_set d k v) k' = (if k' = k then Some v else map_of d k')"
  by (induction d) auto

lemma map_of_rev2_rating_step:
  "map_of (rev2_rating_step review themes (f, t)) t' =
     (if t' = t then
        (case review f of
           None \<Rightarrow> map_of themes t'
         | Some rating \<Rightarrow>
             if is_int_or_float rating \<and> num_ge rating RATING_THRESHOLD_HIGH then Some Positive
             else if is_int_or_float rating \<and> num_le rating RATING_THRESHOLD_LOW then Some Negative
             else map_of themes t')
      else map_of themes t')"
  by (simp add: rev2_rating_step_def map_of_dict_set split: option.splits)

lemma map_of_tt_rating_step:
  "map_of (tt_rating_step review themes (f, t)) t' =
     (if t' = t then
        (case review f of
           None \<Rightarrow> map_of themes t'
         | Some rating \<Rightarrow>
             if is_int_or_float rating then
               Some (if num_ge rating RATING_THRESHOLD_HIGH then Positive
                     else if num_le rating RATING_THRESHOLD_LOW then Negative
                     else Neutral)
             else map_of themes t')
      else map_of themes t')"
  by (simp add: tt_rating_step_def map_of_dict_set split: option.splits)

lemma rev2_rating_lookup:
  assumes "(f, t) \<in> set rating_fields" and "review f = Some v" and "is_int_or_float v"
  shows "map_of (rev2_analyze_numeric_ratings review) t =
           (if num_ge v RATING_THRESHOLD_HIGH then Some Positive
            else if num_le v RATING_THRESHOLD_LOW then Some Negative
            else None)"
proof -
  from assms(1) consider "f = ''work_life_balance''" "t = ''work_life_balance''"
    | "f = ''career_growth''" "t = ''career_growth''"
    | "f = ''leadership_management''" "t = ''leadership''"
    | "f = ''innovation''" "t = ''innovation''"
    unfolding rating_fields_def by fastforce
  then show ?thesis
    using assms(2,3)
    by cases
      (simp_all add: rev2_analyze_numeric_ratings_def rating_fields_def map_of_rev2_rating_step)
qed

lemma tt_rating_lookup:
  assumes "(f, t) \<in> set rating_fields" and "review f = Some v" and "is_int_or_float v"
  shows "map_of (tt_analyze_numeric_ratings review) t =
           Some (if num_ge v RATING_THRESHOLD_HIGH then Positive
                 else if num_le v RATING_THRESHOLD_LOW then Negative
                 else Neutral)"
proof -
  from assms(1) consider "f = ''work_life_balance''" "t = ''work_life_balance''"
    | "f = ''career_growth''" "t = ''career_growth''"
    | "f = ''leadership_management''" "t = ''leadership''"
    | "f = ''innovation''" "t = ''innovation''"
    unfolding rating_fields_def by fastforce
  then show ?thesis
    using assms(2,3)
    by cases
      (simp_all add: tt_analyze_numeric_ratings_def rating_fields_def map_of_tt_rating_step)
qed

text \<open>
  C1 (as the code has it). For a numeric value \<open>v\<close> supplied for one of the four rating
  fields, both classifiers give the field's theme \<open>positive\<close> when \<open>v \<ge> 7\<close> and
  \<open>negative\<close> when \<open>v \<le> 4\<close>. For a value strictly between the thresholds the
  per-polarity implementation (\<open>tt.py\<close>) gives \<open>neutral\<close>, while the flat-catalog
  implementation (\<open>rev2.py\<close>) records no verdict for the theme at all.
\<close>

theorem C1_rating_thresholds:
  assumes "(f, t) \<in> set rating_fields" and "review f = Some v" and "is_int_or_float v"
  shows "(num_ge v 7 \<longrightarrow>
            map_of (tt_analyze_numeric_ratings review) t = Some Positive \<and>
            map_of (rev2_analyze_numeric_ratings review) t = Some Positive) \<and>
         (num_le v 4 \<longrightarrow>
            map_of (tt_analyze_numeric_ratings review) t = Some Negative \<and>
            map_of (rev2_analyze_numeric_ratings review) t = Some Negative) \<and>
         (\<not> num_ge v 7 \<and> \<not> num_le v 4 \<longrightarrow>
            map_of (tt_analyze_numeric_ratings review) t = Some Neutral \<and>
            map_of (rev2_analyze_numeric_ratings review) t = None)"
proof -
  have not_both: "\<not> (num_ge v 7 \<and> num_le v 4)"
    by (cases "(v, 7::int)" rule: num_ge.cases) auto
  show ?thesis
    using rev2_rating_lookup [of f t review v] tt_rating_lookup [of f t review v] assms not_both
    by (simp add: RATING_THRESHOLD_HIGH_def RATING_THRESHOLD_LOW_def)
qed

theorem C1_rating_thresholds_witness:
  "map_of (tt_analyze_numeric_ratings [''leadership_management'' \<mapsto> VInt 7]) ''leadership''
     = Some Positive \<and>
   map_of (rev2_analyze_numeric_ratings [''leadership_management'' \<mapsto> VInt 7]) ''leadership''
     = Some Positive"
  using C1_rating_thresholds [of "''leadership_management''" "''leadership''"
      "[''leadership_management'' \<mapsto> VInt 7]" "VInt 7"]
  by (simp add: rating_fields_def)

theorem C1_neutral_counterexample:
  "map_of (rev2_analyze_numeric_ratings [''work_life_balance'' \<mapsto> VInt 5]) ''work_life_balance''
     \<noteq> Some Neutral"
  by (simp add: rev2_analyze_numeric_ratings_def rating_fields_def map_of_rev2_rating_step
      RATING_THRESHOLD_HIGH_def RATING_THRESHOLD_LOW_def)

section \<open>Properties of the salary classifier\<close>

lemma comprehension_Inl:
  "x \<in> set xs \<Longrightarrow> f x = Inl e \<Longrightarrow> \<exists>e'. comprehension f xs = Inl e'"
  by (induction xs) (auto split: sum.splits)

lemma comprehension_length:
  "comprehension f xs = Inr ys \<Longrightarrow> length ys = length xs"
  by (induction xs arbitrary: ys) (auto split: sum.splits)

lemma salary_values_malformed:
  assumes "length (split_on CHR ''-'' s) \<noteq> 2 \<or>
           (\<exists>p \<in> set (split_on CHR ''-'' s). filter isdigit p = [])"
  shows "case salary_values (VStr s) of Inl e \<Rightarrow> True | Inr values \<Rightarrow> length values \<noteq> 2"
proof (cases "\<exists>p \<in> set (split_on CHR ''-'' s). filter isdigit p = []")
  case True
  then obtain p where "p \<in> set (split_on CHR ''-'' s)" and "filter isdigit p = []"
    by blast
  then have "\<exists>e'. comprehension (\<lambda>val. int_of_digits (filter isdigit val)) (split_on CHR ''-'' s)
                 = Inl e'"
    by (intro comprehension_Inl [where x = p and e = ValueError]) (simp_all add: int_of_digits_def)
  then show ?thesis
    by (auto simp: salary_values_def)
next
  case False
  with assms have "length (split_on CHR ''-'' s) \<noteq> 2"
    by blast
  then show ?thesis
    by (auto simp: salary_values_def split: sum.splits dest: comprehension_length)
qed

lemma rev2_salary_try_malformed:
  assumes "length (split_on CHR ''-'' s) \<noteq> 2 \<or>
           (\<exists>p \<in> set (split_on CHR ''-'' s). filter isdigit p = [])"
  shows "rev2_salary_try (VStr s) = Inr Neutral \<or> (\<exists>e. rev2_salary_try (VStr s) = Inl e)"
  using salary_values_malformed [OF assms]
  by (auto simp: rev2_salary_try_def split: sum.splits)

lemma tt_salary_try_malformed:
  assumes "length (split_on CHR ''-'' s) \<noteq> 2 \<or>
           (\<exists>p \<in> set (split_on CHR ''-'' s). filter isdigit p = [])"
  shows "tt_salary_try (VStr s) location = Inr Neutral \<or>
         (\<exists>e. tt_salary_try (VStr s) location = Inl e)"
  using salary_values_malformed [OF assms]
  by (auto simp: tt_salary_try_def split: sum.splits)

lemma salary_malformed_neutral:
  assumes "malformed_range s"
  shows "rev2_analyze_salary_range (VStr s) currency = Inr Neutral \<and>
         tt_analyze_salary_range (VStr s) currency location = Inr Neutral"
proof (cases "s = []")
  case True
  then show ?thesis
    by (simp add: rev2_analyze_salary_range_def tt_analyze_salary_range_def)
next
  case False
  with assms have bad: "length (split_on CHR ''-'' s) \<noteq> 2 \<or>
           (\<exists>p \<in> set (split_on CHR ''-'' s). filter isdigit p = [])"
    unfolding malformed_range_def by blast
  show ?thesis
    using rev2_salary_try_malformed [OF bad] tt_salary_try_malformed [OF bad, of location]
    by (auto simp: rev2_analyze_salary_range_def tt_analyze_salary_range_def)
qed

text \<open>
  C5. Salary classification is total and returns \<open>neutral\<close> on every malformed range
  text: one that is empty, that does not split on \<open>-\<close> into exactly two parts, or that
  has a part with no digit. No exception escapes (the result is a value, never an error),
  whatever the currency and the location are.
\<close>

theorem C5_salary_malformed_neutral:
  assumes "malformed_range s"
  shows "rev2_analyze_salary_range (VStr s) currency = Inr Neutral \<and>
         tt_analyze_salary_range (VStr s) currency location = Inr Neutral"
  using assms by (rule salary_malformed_neutral)

theorem C5_salary_malformed_neutral_witness:
  "rev2_analyze_salary_range (VStr ''not-a-range'') (VStr ''USD'') = Inr Neutral \<and>
   tt_analyze_salary_range (VStr ''not-a-range'') (VStr ''USD'') VNone = Inr Neutral \<and>
   rev2_analyze_salary_range (VStr []) (VStr ''USD'') = Inr Neutral \<and>
   tt_analyze_salary_range (VStr []) (VStr ''USD'') VNone = Inr Neutral"
  using C5_salary_malformed_neutral [of "''not-a-range''" "VStr ''USD''" VNone]
    C5_salary_malformed_neutral [of "[]" "VStr ''USD''" VNone]
  by (simp add: malformed_range_def isdigit_def)

text \<open>
  C9 (as the code has it). The currency is not parsed and no threshold depends on it, but
  the guard \<open>if not salary_range or not currency\<close> reads its emptiness: two currency
  values that are both non-empty (or both empty) give the same result, and an empty or
  absent currency forces \<open>neutral\<close> whatever the range is.
\<close>

theorem C9_currency_only_emptiness:
  "(truthy c1 = truthy c2 \<longrightarrow>
      rev2_analyze_salary_range salary_range c1 = rev2_analyze_salary_range salary_range c2 \<and>
      tt_analyze_salary_range salary_range c1 location =
        tt_analyze_salary_range salary_range c2 location) \<and>
   (\<not> truthy c1 \<longrightarrow>
      rev2_analyze_salary_range salary_range c1 = Inr Neutral \<and>
      tt_analyze_salary_range salary_range c1 location = Inr Neutral)"
  by (simp add: rev2_analyze_salary_range_def tt_analyze_salary_range_def)

theorem C9_currency_only_emptiness_witness:
  "rev2_analyze_salary_range (VStr ''150000-200000'') (VStr ''USD'') =
     rev2_analyze_salary_range (VStr ''150000-200000'') (VStr ''INR'') \<and>
   tt_analyze_salary_range (VStr ''150000-200000'') (VStr ''USD'') VNone =
     tt_analyze_salary_range (VStr ''150000-200000'') (VStr ''INR'') VNone \<and>
   rev2_analyze_salary_range (VStr ''150000-200000'') VNone = Inr Neutral \<and>
   tt_analyze_salary_range (VStr ''150000-200000'') VNone VNone = Inr Neutral"
  using C9_currency_only_emptiness [of "VStr ''USD''" "VStr ''INR''" "VStr ''150000-200000''" VNone]
    C9_currency_only_emptiness [of VNone VNone "VStr ''150000-200000''" VNone]
  by simp

theorem C9_currency_counterexample:
  "rev2_analyze_salary_range (VStr ''150000-200000'') (VStr ''USD'') \<noteq>
   rev2_analyze_salary_range (VStr ''150000-200000'') (VStr [])"
  by (simp add: rev2_analyze_salary_range_def rev2_salary_try_def salary_values_def isdigit_def
      int_of_digits_def digit_val_def avg_salary_def)

section \<open>The end-to-end example\<close>

lemma example_fields:
  "example_review ''headline'' = None"
  "example_review ''pros'' = Some (VStr ''excellent benefits'')"
  "example_review ''cons'' = Some (VStr ''tight deadlines'')"
  "example_review ''compensation_range'' = Some (VStr ''150000-200000'')"
  "example_review ''currency'' = Some (VStr ''USD'')"
  "example_review ''location'' = None"
  by (simp_all add: example_review_def)

lemma example_rev2_ratings:
  "rev2_analyze_numeric_ratings example_review =
     [(''work_life_balance'', Positive), (''career_growth'', Positive),
      (''leadership'', Positive), (''innovation'', Positive)]"
  by code_simp

lemma example_tt_ratings:
  "tt_analyze_numeric_ratings example_review =
     [(''work_life_balance'', Positive), (''career_growth'', Positive),
      (''leadership'', Positive), (''innovation'', Positive)]"
  by code_simp

lemma example_rev2_salary:
  "rev2_analyze_salary_range (VStr ''150000-200000'') (VStr ''USD'') = Inr Positive"
  by code_simp

lemma example_tt_salary:
  "tt_analyze_salary_range (VStr ''150000-200000'') (VStr ''USD'') VNone = Inr Positive"
  by code_simp

lemma example_rev2_pros: "rev2_find_themes (lower ''excellent benefits'') = [''compensation'']"
  by code_simp

lemma example_rev2_cons:
  "rev2_find_themes (lower ''tight deadlines'') = [''work_life_balance'', ''project_management'']"
  by code_simp

lemma example_tt_pros:
  "tt_find_themes (lower ''excellent benefits'') =
     [(Positive, [''compensation'', ''career_growth''])]"
  by code_simp

lemma example_tt_cons: "tt_find_themes (lower ''tight deadlines'') = []"
  by code_simp

lemma example_sorted_rev2_positive:
  "sorted_set [''work_life_balance'', ''career_growth'', ''leadership'', ''innovation'',
               ''compensation'', ''compensation''] =
     [''career_growth'', ''compensation'', ''innovation'', ''leadership'', ''work_life_balance'']"
  by code_simp

lemma example_sorted_rev2_negative:
  "sorted_set [''work_life_balance'', ''project_management''] =
     [''project_management'', ''work_life_balance'']"
  by code_simp

lemma example_sorted_tt_positive:
  "sorted_set [''work_life_balance'', ''career_growth'', ''leadership'', ''innovation'',
               ''compensation'', ''compensation'', ''career_growth''] =
     [''career_growth'', ''compensation'', ''innovation'', ''leadership'', ''work_life_balance'']"
  by code_simp

lemma sorted_set_Nil: "sorted_set [] = []"
  by (simp add: sorted_set_def)

lemma example_rev2_review:
  "rev2_analyze_review sia example_review =
     Inr \<lparr>positive = [''career_growth'', ''compensation'', ''innovation'', ''leadership'',
                      ''work_life_balance''],
          negative = [''project_management'', ''work_life_balance''],
          neutral = []\<rparr>"
  by (simp add: rev2_analyze_review_def example_rev2_ratings add_ratings_def rev2_add_salary_def
      example_fields example_rev2_salary rev2_text_field_def rev2_analyze_text_def
      example_rev2_pros example_rev2_cons dedup_sort_def example_sorted_rev2_positive
      example_sorted_rev2_negative sorted_set_Nil)

lemma example_tt_review:
  "tt_analyze_review sia example_review =
     Inr \<lparr>positive = [''career_growth'', ''compensation'', ''innovation'', ''leadership'',
                      ''work_life_balance''],
          negative = [],
          neutral = []\<rparr>"
  by (simp add: tt_analyze_review_def example_tt_ratings add_ratings_def tt_add_salary_def
      example_fields example_tt_salary tt_text_field_def text_fields_def tt_analyze_text_def
      example_tt_pros example_tt_cons dedup_sort_def example_sorted_tt_positive sorted_set_Nil)

text \<open>
  C7 (as the code has it). For the specification's example review both rating classifiers
  give \<open>work_life_balance\<close>, \<open>career_growth\<close>, \<open>innovation\<close> and also \<open>leadership\<close> the
  polarity \<open>positive\<close> (the comparison with \<open>HIGH\<close> is \<open>>=\<close>, and the rating is exactly 7),
  the salary classifier gives \<open>positive\<close> (average 175000), and the whole analysis puts
  these five themes in the positive bucket, whatever the sentiment scorer returns.
\<close>

theorem C7_example_review:
  "rev2_analyze_numeric_ratings example_review =
     [(''work_life_balance'', Positive), (''career_growth'', Positive),
      (''leadership'', Positive), (''innovation'', Positive)] \<and>
   tt_analyze_numeric_ratings example_review =
     [(''work_life_balance'', Positive), (''career_growth'', Positive),
      (''leadership'', Positive), (''innovation'', Positive)] \<and>
   rev2_analyze_salary_range (VStr ''150000-200000'') (VStr ''USD'') = Inr Positive \<and>
   tt_analyze_salary_range (VStr ''150000-200000'') (VStr ''USD'') VNone = Inr Positive \<and>
   rev2_analyze_review sia example_review =
     Inr \<lparr>positive = [''career_growth'', ''compensation'', ''innovation'', ''leadership'',
                      ''work_life_balance''],
          negative = [''project_management'', ''work_life_balance''],
          neutral = []\<rparr> \<and>
   tt_analyze_review sia example_review =
     Inr \<lparr>positive = [''career_growth'', ''compensation'', ''innovation'', ''leadership'',
                      ''work_life_balance''],
          negative = [],
          neutral = []\<rparr>"
  by (simp only: example_rev2_ratings example_tt_ratings example_rev2_salary example_tt_salary
      example_rev2_review example_tt_review simp_thms)

theorem C7_example_review_witness:
  "map_of (rev2_analyze_numeric_ratings example_review) ''leadership'' = Some Positive \<and>
   map_of (tt_analyze_numeric_ratings example_review) ''leadership'' = Some Positive \<and>
   rev2_analyze_review flat_scorer example_review =
     Inr \<lparr>positive = [''career_growth'', ''compensation'', ''innovation'', ''leadership'',
                      ''work_life_balance''],
          negative = [''project_management'', ''work_life_balance''],
          neutral = []\<rparr> \<and>
   tt_analyze_review flat_scorer example_review =
     Inr \<lparr>positive = [''career_growth'', ''compensation'', ''innovation'', ''leadership'',
                      ''work_life_balance''],
          negative = [],
          neutral = []\<rparr>"
  using C7_example_review [of flat_scorer] by simp

theorem C7_leadership_counterexample:
  "map_of (rev2_analyze_numeric_ratings example_review) ''leadership'' \<noteq> Some Neutral \<and>
   map_of (tt_analyze_numeric_ratings example_review) ''leadership'' \<noteq> Some Neutral"
  by (simp add: example_rev2_ratings example_tt_ratings)

section \<open>Properties of the review analyzer\<close>

lemma set_bucket_append_to:
  "set (bucket s (append_to r s' t)) =
     (if s = s' then insert t (set (bucket s r)) else set (bucket s r))"
  by (cases s; cases s') auto

lemma set_bucket_add_ratings:
  "set (bucket s (add_ratings r d)) = set (bucket s r) \<union> {t. (t, s) \<in> set d}"
proof -
  have "set (bucket s (foldl (\<lambda>res (theme, sentiment). append_to res sentiment theme) r d)) =
          set (bucket s r) \<union> {t. (t, s) \<in> set d}" for r
    by (induction d arbitrary: r) (auto simp: set_bucket_append_to split: if_splits)
  then show ?thesis
    by (simp add: add_ratings_def)
qed

lemma set_bucket_fold_append:
  "set (bucket s (foldl (\<lambda>res theme. append_to res (g theme) theme) r ts)) =
     set (bucket s r) \<union> {t \<in> set ts. g t = s}"
  by (induction ts arbitrary: r) (auto simp: set_bucket_append_to split: if_splits)

lemma set_sorted_set: "set (sorted_set xs) = set xs"
  by (simp add: sorted_set_def)

lemma distinct_sorted_set: "distinct (sorted_set xs)"
  by (simp add: sorted_set_def)

lemma sorted_sorted_set: "sorted (sorted_set xs)"
  by (simp add: sorted_set_def)

lemma bucket_dedup_sort: "bucket s (dedup_sort r) = sorted_set (bucket s r)"
  by (cases s) (simp_all add: dedup_sort_def)

subsection \<open>The rating dict\<close>

lemma keys_dict_set: "set (map fst (dict_set d k v)) = insert k (set (map fst d))"
  by (induction d) force+

lemma distinct_dict_set: "distinct (map fst d) \<Longrightarrow> distinct (map fst (dict_set d k v))"
proof (induction d)
  case Nil
  then show ?case by simp
next
  case (Cons x d)
  obtain k' v' where x: "x = (k', v')" by (cases x)
  show ?case
  proof (cases "k' = k")
    case True
    with Cons.prems x show ?thesis by simp
  next
    case False
    have "k' \<notin> set (map fst (dict_set d k v))"
      using Cons.prems x False unfolding keys_dict_set by simp
    with Cons x False show ?thesis by simp
  qed
qed

lemma rev2_rating_step_keys:
  "set (map fst (rev2_rating_step review d ft)) \<subseteq> insert (snd ft) (set (map fst d))"
  by (auto simp: rev2_rating_step_def keys_dict_set split: option.splits if_splits
      simp del: set_map)

lemma tt_rating_step_keys:
  "set (map fst (tt_rating_step review d ft)) \<subseteq> insert (snd ft) (set (map fst d))"
  by (auto simp: tt_rating_step_def keys_dict_set split: option.splits if_splits
      simp del: set_map)

lemma rev2_rating_step_distinct:
  "distinct (map fst d) \<Longrightarrow> distinct (map fst (rev2_rating_step review d ft))"
  by (simp add: rev2_rating_step_def distinct_dict_set split: option.splits)

lemma tt_rating_step_distinct:
  "distinct (map fst d) \<Longrightarrow> distinct (map fst (tt_rating_step review d ft))"
  by (simp add: tt_rating_step_def distinct_dict_set split: option.splits)

lemma foldl_keys:
  assumes "\<And>d ft. set (map fst (step d ft)) \<subseteq> insert (snd ft) (set (map fst d))"
  shows "set (map fst (foldl step d fs)) \<subseteq> set (map snd fs) \<union> set (map fst d)"
proof (induction fs arbitrary: d)
  case Nil
  then show ?case by simp
next
  case (Cons f fs)
  have "set (map fst (foldl step (step d f) fs)) \<subseteq> set (map snd fs) \<union> set (map fst (step d f))"
    by (rule Cons.IH)
  also have "\<dots> \<subseteq> set (map snd fs) \<union> insert (snd f) (set (map fst d))"
    using assms [of d f] by blast
  finally show ?case by auto
qed

lemma foldl_distinct:
  assumes "\<And>d ft. distinct (map fst d) \<Longrightarrow> distinct (map fst (step d ft))"
    and "distinct (map fst d)"
  shows "distinct (map fst (foldl step d fs))"
  using assms(2) by (induction fs arbitrary: d) (simp_all add: assms(1))

lemma rev2_ratings_keys:
  "set (map fst (rev2_analyze_numeric_ratings review)) \<subseteq> set rating_themes"
  using foldl_keys [of "rev2_rating_step review" "[]" rating_fields, OF rev2_rating_step_keys]
  by (simp add: rev2_analyze_numeric_ratings_def rating_themes_def)

lemma tt_ratings_keys:
  "set (map fst (tt_analyze_numeric_ratings review)) \<subseteq> set rating_themes"
  using foldl_keys [of "tt_rating_step review" "[]" rating_fields, OF tt_rating_step_keys]
  by (simp add: tt_analyze_numeric_ratings_def rating_themes_def)

lemma rev2_ratings_distinct: "distinct (map fst (rev2_analyze_numeric_ratings review))"
  unfolding rev2_analyze_numeric_ratings_def
  by (rule foldl_distinct [OF rev2_rating_step_distinct]) simp_all

lemma tt_ratings_distinct: "distinct (map fst (tt_analyze_numeric_ratings review))"
  unfolding tt_analyze_numeric_ratings_def
  by (rule foldl_distinct [OF tt_rating_step_distinct]) simp_all

subsection \<open>Loops that may raise\<close>

lemma for_loop_total:
  assumes "\<And>s x. x \<in> set xs \<Longrightarrow> \<exists>s'. body s x = Inr s'"
  shows "\<exists>s'. for_loop body s xs = Inr s'"
  using assms
proof (induction xs arbitrary: s)
  case Nil
  then show ?case by simp
next
  case (Cons x xs)
  from Cons.prems [of x s] obtain s1 where "body s x = Inr s1" by auto
  moreover from Cons.IH [of s1] Cons.prems obtain s2 where "for_loop body s1 xs = Inr s2"
    by auto
  ultimately show ?case by simp
qed

lemma for_loop_invariant:
  assumes "for_loop body s xs = Inr s'" and "P s"
    and "\<And>s x s'. x \<in> set xs \<Longrightarrow> P s \<Longrightarrow> body s x = Inr s' \<Longrightarrow> P s'"
  shows "P s'"
  using assms
proof (induction xs arbitrary: s)
  case Nil
  then show ?case by simp
next
  case (Cons x xs)
  from Cons.prems(1) obtain s1 where s1: "body s x = Inr s1" "for_loop body s1 xs = Inr s'"
    by (auto split: sum.splits)
  have "P s1"
    using Cons.prems(3) [of x s s1] Cons.prems(2) s1(1) by simp
  show ?case
  proof (rule Cons.IH [OF s1(2) \<open>P s1\<close>])
    fix s x' s'
    assume "x' \<in> set xs" "P s" "body s x' = Inr s'"
    then show "P s'"
      using Cons.prems(3) [of x' s s'] by simp
  qed
qed

lemma for_loop_unchanged:
  assumes "\<And>x. x \<in> set xs \<Longrightarrow> body s x = Inr s"
  shows "for_loop body s xs = Inr s"
  using assms by (induction xs) simp_all

subsection \<open>The salary step\<close>

lemma rev2_salary_returns: "\<exists>s. rev2_analyze_salary_range a b = Inr s"
  by (auto simp: rev2_analyze_salary_range_def split: sum.splits)

lemma tt_salary_returns: "\<exists>s. tt_analyze_salary_range a b c = Inr s"
  by (auto simp: tt_analyze_salary_range_def split: sum.splits)

lemma rev2_add_salary_cases:
  obtains "rev2_add_salary review r = Inr r"
      "review ''compensation_range'' = None \<or> review ''currency'' = None"
  | a b s where "review ''compensation_range'' = Some a" "review ''currency'' = Some b"
      "rev2_analyze_salary_range a b = Inr s"
      "rev2_add_salary review r = Inr (append_to r s ''compensation'')"
proof (cases "review ''compensation_range''")
  case None
  then show ?thesis using that(1) by (simp add: rev2_add_salary_def)
next
  case a: (Some a)
  show ?thesis
  proof (cases "review ''currency''")
    case None
    then show ?thesis using that(1) a by (simp add: rev2_add_salary_def)
  next
    case b: (Some b)
    obtain s where "rev2_analyze_salary_range a b = Inr s"
      using rev2_salary_returns by blast
    then show ?thesis using that(2) a b by (simp add: rev2_add_salary_def)
  qed
qed

lemma tt_add_salary_cases:
  obtains "tt_add_salary review r = Inr r" "review ''compensation_range'' = None"
  | a s where "review ''compensation_range'' = Some a"
      "tt_analyze_salary_range a
         (case review ''currency'' of None \<Rightarrow> VStr ''USD'' | Some c \<Rightarrow> c)
         (case review ''location'' of None \<Rightarrow> VNone | Some l \<Rightarrow> l) = Inr s"
      "tt_add_salary review r = Inr (append_to r s ''compensation'')"
proof (cases "review ''compensation_range''")
  case None
  then show ?thesis using that(1) by (simp add: tt_add_salary_def)
next
  case a: (Some a)
  obtain s where "tt_analyze_salary_range a
         (case review ''currency'' of None \<Rightarrow> VStr ''USD'' | Some c \<Rightarrow> c)
         (case review ''location'' of None \<Rightarrow> VNone | Some l \<Rightarrow> l) = Inr s"
    using tt_salary_returns by blast
  then show ?thesis using that(2) a by (simp add: tt_add_salary_def)
qed

subsection \<open>The text steps\<close>

lemma rev2_find_themes_subset: "set (rev2_find_themes t) \<subseteq> set (map fst rev2_themes)"
  by (auto simp: rev2_find_themes_def)

lemma rev2_text_field_unchanged:
  assumes "case review f of None \<Rightarrow> True | Some v \<Rightarrow> \<not> truthy v"
  shows "rev2_text_field sia review r f = Inr r"
  using assms by (simp add: rev2_text_field_def split: option.splits)

lemma rev2_text_field_total:
  assumes "case review f of None \<Rightarrow> True
           | Some v \<Rightarrow> truthy v \<longrightarrow> (case v of VStr s \<Rightarrow> True | _ \<Rightarrow> False)"
  shows "\<exists>r'. rev2_text_field sia review r f = Inr r'"
  using assms
  by (auto simp: rev2_text_field_def rev2_analyze_text_def Let_def
      split: option.splits pyval.splits)

lemma rev2_text_field_grows:
  assumes "rev2_text_field sia review r f = Inr r'"
  shows "set (bucket s r) \<subseteq> set (bucket s r') \<and>
         set (bucket s r') \<subseteq> set (bucket s r) \<union> set (map fst rev2_themes)"
proof (cases "case review f of None \<Rightarrow> True | Some v \<Rightarrow> \<not> truthy v")
  case True
  from rev2_text_field_unchanged [of review f sia r] True assms show ?thesis by simp
next
  case False
  then obtain v where v: "review f = Some v" "truthy v"
    by (auto split: option.splits)
  with assms obtain themes sentiment where
    at: "rev2_analyze_text sia v = Inr (themes, sentiment)" and
    r': "r' = foldl (\<lambda>res theme. append_to res
               (if f = ''pros'' then Positive else if f = ''cons'' then Negative else sentiment)
               theme) r themes"
    by (auto simp: rev2_text_field_def if_distrib [of "\<lambda>s. append_to _ s _"]
        split: sum.splits cong: if_cong)
  from at v(2) have "set themes \<subseteq> set (map fst rev2_themes)"
    using rev2_find_themes_subset
    by (auto simp: rev2_analyze_text_def Let_def split: pyval.splits)
  then show ?thesis
    unfolding r' set_bucket_fold_append by auto
qed

lemma dict_append_values:
  "set (concat (map snd (dict_append d k' v))) = insert v (set (concat (map snd d)))"
proof (induction d)
  case Nil
  then show ?case by simp
next
  case (Cons x d)
  obtain k vs where x: "x = (k, vs)" by (cases x)
  show ?case
  proof (cases "k = k'")
    case True
    then show ?thesis by (auto simp: x)
  next
    case False
    then show ?thesis using Cons.IH by (auto simp: x)
  qed
qed

lemma tt_match_theme_values:
  "set (concat (map snd (tt_match_theme t d tk))) \<subseteq>
     insert (fst tk) (set (concat (map snd d)))"
proof -
  have "set (concat (map snd (foldl (\<lambda>d (sentiment, keywords).
              if any_keyword keywords t then dict_append d sentiment (fst tk) else d) d sk))) \<subseteq> insert (fst tk) (set (concat (map snd d)))" for sk d
  proof (induction sk arbitrary: d)
    case Nil
    then show ?case by auto
  next
    case (Cons x sk)
    obtain sentiment kws where x: "x = (sentiment, kws)" by (cases x)
    let ?f = "\<lambda>d (sentiment, keywords).
                if any_keyword keywords t then dict_append d sentiment (fst tk) else d"
    let ?d1 = "if any_keyword kws t then dict_append d sentiment (fst tk) else d"
    have step: "foldl ?f d (x # sk) = foldl ?f ?d1 sk"
      by (simp add: x)
    have "set (concat (map snd ?d1)) \<subseteq> insert (fst tk) (set (concat (map snd d)))"
      using dict_append_values [of d sentiment "fst tk"] by (cases "any_keyword kws t") auto
    with Cons.IH [of ?d1] show ?case
      unfolding step by blast
  qed
  then show ?thesis
    by (simp add: tt_match_theme_def)
qed

lemma tt_find_themes_subset:
  "set (concat (map snd (tt_find_themes t))) \<subseteq> set (map fst tt_themes)"
proof -
  have "set (concat (map snd (foldl (tt_match_theme t) d ths))) \<subseteq>
          set (map fst ths) \<union> set (concat (map snd d))" for d ths
  proof (induction ths arbitrary: d)
    case Nil
    then show ?case by simp
  next
    case (Cons th ths)
    show ?case
      using Cons.IH [of "tt_match_theme t d th"] tt_match_theme_values [of t d th]
      by auto
  qed
  from this [of "[]" tt_themes] show ?thesis
    by (simp add: tt_find_themes_def)
qed

lemma nested_fold_grows:
  "set (bucket s r) \<subseteq>
     set (bucket s (foldl (\<lambda>res (sentiment, themes).
                       foldl (\<lambda>res theme. append_to res (h sentiment) theme) res themes) r tbs)) \<and>
   set (bucket s (foldl (\<lambda>res (sentiment, themes).
                       foldl (\<lambda>res theme. append_to res (h sentiment) theme) res themes) r tbs))
     \<subseteq> set (bucket s r) \<union> set (concat (map snd tbs))"
proof (induction tbs arbitrary: r)
  case Nil
  then show ?case by simp
next
  case (Cons x tbs)
  obtain sentiment themes where x: "x = (sentiment, themes)" by (cases x)
  let ?r1 = "foldl (\<lambda>res theme. append_to res (h sentiment) theme) r themes"
  have r1: "set (bucket s ?r1) = set (bucket s r) \<union> {t \<in> set themes. h sentiment = s}"
    using set_bucket_fold_append [of s "\<lambda>_. h sentiment" r themes] by simp
  show ?case
    using Cons.IH [of ?r1] r1 by (auto simp: x)
qed

lemma tt_text_field_unchanged:
  assumes "case review (fst ff) of None \<Rightarrow> True | Some v \<Rightarrow> \<not> truthy v"
  shows "tt_text_field sia review r ff = Inr r"
  using assms by (simp add: tt_text_field_def split: option.splits)

lemma tt_text_field_total:
  assumes "case review (fst ff) of None \<Rightarrow> True
           | Some v \<Rightarrow> truthy v \<longrightarrow> (case v of VStr s \<Rightarrow> True | _ \<Rightarrow> False)"
  shows "\<exists>r'. tt_text_field sia review r ff = Inr r'"
  using assms
  by (auto simp: tt_text_field_def tt_analyze_text_def Let_def
      split: option.splits pyval.splits)

lemma forced_append:
  "(case x of Some forced_sentiment \<Rightarrow> append_to res forced_sentiment theme
            | None \<Rightarrow> append_to res sentiment theme) =
   append_to res (case x of Some forced_sentiment \<Rightarrow> forced_sentiment | None \<Rightarrow> sentiment) theme"
  by (cases x) simp_all

lemma tt_text_field_grows:
  assumes "tt_text_field sia review r ff = Inr r'"
  shows "set (bucket s r) \<subseteq> set (bucket s r') \<and>
         set (bucket s r') \<subseteq> set (bucket s r) \<union> set (map fst tt_themes)"
proof (cases "case review (fst ff) of None \<Rightarrow> True | Some v \<Rightarrow> \<not> truthy v")
  case True
  from tt_text_field_unchanged [of review ff sia r] True assms show ?thesis by simp
next
  case False
  then obtain v where v: "review (fst ff) = Some v" "truthy v"
    by (auto split: option.splits)
  with assms obtain tbs detected where
    at: "tt_analyze_text sia v = Inr (tbs, detected)" and
    r': "r' = foldl (\<lambda>res (sentiment, themes).
                 foldl (\<lambda>res theme. append_to res
                          (case snd ff of Some forced_sentiment \<Rightarrow> forced_sentiment
                                        | None \<Rightarrow> sentiment) theme) res themes) r tbs"
    by (auto simp: tt_text_field_def forced_append split: sum.splits)
  from at v(2) have "set (concat (map snd tbs)) \<subseteq> set (map fst tt_themes)"
    using tt_find_themes_subset
    by (auto simp: tt_analyze_text_def Let_def split: pyval.splits)
  then show ?thesis
    unfolding r'
    using nested_fold_grows [of s r "\<lambda>sentiment. case snd ff of Some f \<Rightarrow> f | None \<Rightarrow> sentiment" tbs]
    by blast
qed

subsection \<open>The stages of \<open>analyze_review\<close>\<close>

lemma bucket_empty_result: "bucket s empty_result = []"
  by (cases s) (simp_all add: empty_result_def)

lemma rev2_analyze_review_stages:
  assumes "rev2_analyze_review sia review = Inr a"
  obtains r2 r3 where
    "rev2_add_salary review (add_ratings empty_result (rev2_analyze_numeric_ratings review)) = Inr r2"
    "for_loop (rev2_text_field sia review) r2 text_field_names = Inr r3"
    "a = dedup_sort r3"
  using assms
  by (auto simp: rev2_analyze_review_def empty_result_def text_field_names_def Let_def
      split: sum.splits)

lemma tt_analyze_review_stages:
  assumes "tt_analyze_review sia review = Inr a"
  obtains r2 r3 where
    "tt_add_salary review (add_ratings empty_result (tt_analyze_numeric_ratings review)) = Inr r2"
    "for_loop (tt_text_field sia review) r2 text_fields = Inr r3"
    "a = dedup_sort r3"
  using assms
  by (auto simp: tt_analyze_review_def empty_result_def Let_def split: sum.splits)

lemma normalized_dedup_sort: "normalized (dedup_sort r)"
  by (simp add: normalized_def bucket_dedup_sort distinct_sorted_set sorted_sorted_set)

lemma rev2_analysis_normalized: "rev2_analyze_review sia review = Inr a \<Longrightarrow> normalized a"
  by (erule rev2_analyze_review_stages) (simp add: normalized_dedup_sort)

lemma tt_analysis_normalized: "tt_analyze_review sia review = Inr a \<Longrightarrow> normalized a"
  by (erule tt_analyze_review_stages) (simp add: normalized_dedup_sort)

lemma ratings_bucket:
  "set (bucket s (add_ratings empty_result d)) = {t. (t, s) \<in> set d}"
  by (simp add: set_bucket_add_ratings bucket_empty_result)

lemma rev2_text_loop_grows:
  assumes "for_loop (rev2_text_field sia review) r fs = Inr r'"
  shows "set (bucket s r) \<subseteq> set (bucket s r') \<and>
         set (bucket s r') \<subseteq> set (bucket s r) \<union> set (map fst rev2_themes)"
proof (rule for_loop_invariant [OF assms, where
      P = "\<lambda>r'. set (bucket s r) \<subseteq> set (bucket s r') \<and>
                 set (bucket s r') \<subseteq> set (bucket s r) \<union> set (map fst rev2_themes)"])
  show "set (bucket s r) \<subseteq> set (bucket s r) \<and>
        set (bucket s r) \<subseteq> set (bucket s r) \<union> set (map fst rev2_themes)"
    by simp
next
  fix r1 f r2
  assume "set (bucket s r) \<subseteq> set (bucket s r1) \<and>
          set (bucket s r1) \<subseteq> set (bucket s r) \<union> set (map fst rev2_themes)"
    and "rev2_text_field sia review r1 f = Inr r2"
  then show "set (bucket s r) \<subseteq> set (bucket s r2) \<and>
             set (bucket s r2) \<subseteq> set (bucket s r) \<union> set (map fst rev2_themes)"
    using rev2_text_field_grows [of sia review r1 f r2 s] by blast
qed

lemma tt_text_loop_grows:
  assumes "for_loop (tt_text_field sia review) r fs = Inr r'"
  shows "set (bucket s r) \<subseteq> set (bucket s r') \<and>
         set (bucket s r') \<subseteq> set (bucket s r) \<union> set (map fst tt_themes)"
proof (rule for_loop_invariant [OF assms, where
      P = "\<lambda>r'. set (bucket s r) \<subseteq> set (bucket s r') \<and>
                 set (bucket s r') \<subseteq> set (bucket s r) \<union> set (map fst tt_themes)"])
  show "set (bucket s r) \<subseteq> set (bucket s r) \<and>
        set (bucket s r) \<subseteq> set (bucket s r) \<union> set (map fst tt_themes)"
    by simp
next
  fix r1 f r2
  assume "set (bucket s r) \<subseteq> set (bucket s r1) \<and>
          set (bucket s r1) \<subseteq> set (bucket s r) \<union> set (map fst tt_themes)"
    and "tt_text_field sia review r1 f = Inr r2"
  then show "set (bucket s r) \<subseteq> set (bucket s r2) \<and>
             set (bucket s r2) \<subseteq> set (bucket s r) \<union> set (map fst tt_themes)"
    using tt_text_field_grows [of sia review r1 f r2 s] by blast
qed

lemma rev2_salary_bucket:
  assumes "rev2_add_salary review r = Inr r2"
  shows "set (bucket s r) \<subseteq> set (bucket s r2) \<and>
         set (bucket s r2) \<subseteq> insert ''compensation'' (set (bucket s r))"
  by (rule rev2_add_salary_cases [of review r])
    (use assms in \<open>auto simp: set_bucket_append_to split: if_splits\<close>)

lemma tt_salary_bucket:
  assumes "tt_add_salary review r = Inr r2"
  shows "set (bucket s r) \<subseteq> set (bucket s r2) \<and>
         set (bucket s r2) \<subseteq> insert ''compensation'' (set (bucket s r))"
  by (rule tt_add_salary_cases [of review r])
    (use assms in \<open>auto simp: set_bucket_append_to split: if_splits\<close>)

lemma rev2_analysis_known:
  assumes "rev2_analyze_review sia review = Inr a"
  shows "set (bucket s a) \<subseteq> set rev2_known_themes"
proof -
  from assms obtain r2 r3 where
    r2: "rev2_add_salary review (add_ratings empty_result (rev2_analyze_numeric_ratings review)) = Inr r2"
    and r3: "for_loop (rev2_text_field sia review) r2 text_field_names = Inr r3"
    and a: "a = dedup_sort r3"
    by (rule rev2_analyze_review_stages)
  have "set (bucket s (add_ratings empty_result (rev2_analyze_numeric_ratings review)))
          \<subseteq> set rating_themes"
    using rev2_ratings_keys [of review] unfolding ratings_bucket by force
  with rev2_salary_bucket [OF r2, of s] rev2_text_loop_grows [OF r3, of s]
  show ?thesis
    unfolding a bucket_dedup_sort set_sorted_set rev2_known_themes_def by auto
qed

lemma tt_analysis_known:
  assumes "tt_analyze_review sia review = Inr a"
  shows "set (bucket s a) \<subseteq> set tt_known_themes"
proof -
  from assms obtain r2 r3 where
    r2: "tt_add_salary review (add_ratings empty_result (tt_analyze_numeric_ratings review)) = Inr r2"
    and r3: "for_loop (tt_text_field sia review) r2 text_fields = Inr r3"
    and a: "a = dedup_sort r3"
    by (rule tt_analyze_review_stages)
  have "set (bucket s (add_ratings empty_result (tt_analyze_numeric_ratings review)))
          \<subseteq> set rating_themes"
    using tt_ratings_keys [of review] unfolding ratings_bucket by force
  with tt_salary_bucket [OF r2, of s] tt_text_loop_grows [OF r3, of s]
  show ?thesis
    unfolding a bucket_dedup_sort set_sorted_set tt_known_themes_def by auto
qed

subsection \<open>Reviews without text\<close>

lemma compensation_not_rating: "''compensation'' \<notin> set rating_themes"
  by (simp add: rating_themes_def rating_fields_def)

lemma exclusive_no_text_stage:
  assumes keys: "set (map fst d) \<subseteq> set rating_themes" and dist: "distinct (map fst d)"
    and r2: "r2 = add_ratings empty_result d \<or>
             (\<exists>s0. r2 = append_to (add_ratings empty_result d) s0 ''compensation'')"
    and ne: "s \<noteq> s'"
  shows "set (bucket s r2) \<inter> set (bucket s' r2) = {}"
proof -
  have one: "(t, s) \<in> set d \<Longrightarrow> (t, s') \<in> set d \<Longrightarrow> False" for t
    using eq_key_imp_eq_value [OF dist] ne by blast
  have comp: "(''compensation'', x) \<notin> set d" for x
    using keys compensation_not_rating by force
  from r2 show ?thesis
  proof
    assume "r2 = add_ratings empty_result d"
    then show ?thesis
      using one by (auto simp: ratings_bucket)
  next
    assume "\<exists>s0. r2 = append_to (add_ratings empty_result d) s0 ''compensation''"
    then obtain s0 where "r2 = append_to (add_ratings empty_result d) s0 ''compensation''"
      by blast
    then show ?thesis
      using one comp ne by (auto simp: set_bucket_append_to ratings_bucket split: if_splits)
  qed
qed

lemma exclusive_buckets:
  assumes "\<And>s s'. s \<noteq> s' \<Longrightarrow> set (bucket s a) \<inter> set (bucket s' a) = {}"
  shows "exclusive a"
  using assms [of Positive Negative] assms [of Positive Neutral] assms [of Negative Neutral]
  by (simp add: exclusive_def)

lemma rev2_no_text_exclusive:
  assumes a: "rev2_analyze_review sia review = Inr a" and nt: "no_text review"
  shows "exclusive a"
proof (rule exclusive_buckets)
  fix s s' :: sentiment
  assume ne: "s \<noteq> s'"
  let ?d = "rev2_analyze_numeric_ratings review"
  from a obtain r2 r3 where
    r2: "rev2_add_salary review (add_ratings empty_result ?d) = Inr r2"
    and r3: "for_loop (rev2_text_field sia review) r2 text_field_names = Inr r3"
    and a: "a = dedup_sort r3"
    by (rule rev2_analyze_review_stages)
  have "for_loop (rev2_text_field sia review) r2 text_field_names = Inr r2"
    using nt by (intro for_loop_unchanged rev2_text_field_unchanged) (simp add: no_text_def)
  with r3 have "r3 = r2" by simp
  moreover have "r2 = add_ratings empty_result ?d \<or>
                 (\<exists>s0. r2 = append_to (add_ratings empty_result ?d) s0 ''compensation'')"
    by (rule rev2_add_salary_cases [of review "add_ratings empty_result ?d"])
      (use r2 in auto)
  ultimately show "set (bucket s a) \<inter> set (bucket s' a) = {}"
    using exclusive_no_text_stage [OF rev2_ratings_keys rev2_ratings_distinct _ ne, of r2 review]
    by (simp add: a bucket_dedup_sort set_sorted_set)
qed

lemma tt_no_text_exclusive:
  assumes a: "tt_analyze_review sia review = Inr a" and nt: "no_text review"
  shows "exclusive a"
proof (rule exclusive_buckets)
  fix s s' :: sentiment
  assume ne: "s \<noteq> s'"
  let ?d = "tt_analyze_numeric_ratings review"
  from a obtain r2 r3 where
    r2: "tt_add_salary review (add_ratings empty_result ?d) = Inr r2"
    and r3: "for_loop (tt_text_field sia review) r2 text_fields = Inr r3"
    and a: "a = dedup_sort r3"
    by (rule tt_analyze_review_stages)
  have "for_loop (tt_text_field sia review) r2 text_fields = Inr r2"
    using nt
    by (intro for_loop_unchanged tt_text_field_unchanged)
      (auto simp: no_text_def text_fields_def text_field_names_def)
  with r3 have "r3 = r2" by simp
  moreover have "r2 = add_ratings empty_result ?d \<or>
                 (\<exists>s0. r2 = append_to (add_ratings empty_result ?d) s0 ''compensation'')"
    by (rule tt_add_salary_cases [of review "add_ratings empty_result ?d"])
      (use r2 in auto)
  ultimately show "set (bucket s a) \<inter> set (bucket s' a) = {}"
    using exclusive_no_text_stage [OF tt_ratings_keys tt_ratings_distinct _ ne, of r2 review]
    by (simp add: a bucket_dedup_sort set_sorted_set)
qed

lemma ratings_only_rev2:
  "rev2_analyze_review flat_scorer ratings_only_review =
     Inr \<lparr>positive = [''work_life_balance''],
          negative = [''career_growth'', ''compensation''],
          neutral = []\<rparr>"
  by code_simp

lemma ratings_only_tt:
  "tt_analyze_review flat_scorer ratings_only_review =
     Inr \<lparr>positive = [''work_life_balance''],
          negative = [''career_growth'', ''compensation''],
          neutral = [''innovation'']\<rparr>"
  by code_simp

lemma ratings_only_no_text: "no_text ratings_only_review"
  by (simp add: no_text_def text_field_names_def ratings_only_review_def)

lemma example_rev2_flat:
  "rev2_analyze_review flat_scorer example_review =
     Inr \<lparr>positive = [''career_growth'', ''compensation'', ''innovation'', ''leadership'',
                      ''work_life_balance''],
          negative = [''project_management'', ''work_life_balance''],
          neutral = []\<rparr>"
  by (rule example_rev2_review)

lemma conflicting_tt:
  "tt_analyze_review flat_scorer conflicting_review =
     Inr \<lparr>positive = [''work_life_balance''], negative = [''work_life_balance''], neutral = []\<rparr>"
  by code_simp

text \<open>
  C4 (as the code has it). In the result of \<open>analyze_review\<close> every bucket is sorted and
  holds a theme at most once. Ratings and salary alone never put a theme in two buckets:
  for a review without text content the three buckets are pairwise disjoint. A text field
  can add a theme under a second polarity, and the code keeps both entries.
\<close>

theorem C4_buckets_per_review:
  "(rev2_analyze_review sia review = Inr a \<longrightarrow>
      normalized a \<and> (no_text review \<longrightarrow> exclusive a)) \<and>
   (tt_analyze_review sia review = Inr b \<longrightarrow>
      normalized b \<and> (no_text review \<longrightarrow> exclusive b))"
  using rev2_analysis_normalized [of sia review a] rev2_no_text_exclusive [of sia review a]
    tt_analysis_normalized [of sia review b] tt_no_text_exclusive [of sia review b]
  by blast

theorem C4_buckets_per_review_witness:
  "no_text ratings_only_review \<and>
   exclusive \<lparr>positive = [''work_life_balance''],
              negative = [''career_growth'', ''compensation''],
              neutral = []\<rparr> \<and>
   exclusive \<lparr>positive = [''work_life_balance''],
              negative = [''career_growth'', ''compensation''],
              neutral = [''innovation'']\<rparr>"
  using C4_buckets_per_review [of flat_scorer ratings_only_review
      "\<lparr>positive = [''work_life_balance''], negative = [''career_growth'', ''compensation''],
        neutral = []\<rparr>"
      "\<lparr>positive = [''work_life_balance''], negative = [''career_growth'', ''compensation''],
        neutral = [''innovation'']\<rparr>"]
    ratings_only_rev2 ratings_only_tt ratings_only_no_text
  by simp

theorem C4_exclusive_counterexample:
  "rev2_analyze_review flat_scorer example_review =
     Inr \<lparr>positive = [''career_growth'', ''compensation'', ''innovation'', ''leadership'',
                      ''work_life_balance''],
          negative = [''project_management'', ''work_life_balance''],
          neutral = []\<rparr> \<and>
   \<not> exclusive \<lparr>positive = [''career_growth'', ''compensation'', ''innovation'', ''leadership'',
                            ''work_life_balance''],
                negative = [''project_management'', ''work_life_balance''],
                neutral = []\<rparr> \<and>
   tt_analyze_review flat_scorer conflicting_review =
     Inr \<lparr>positive = [''work_life_balance''], negative = [''work_life_balance''], neutral = []\<rparr> \<and>
   \<not> exclusive \<lparr>positive = [''work_life_balance''], negative = [''work_life_balance''],
                neutral = []\<rparr>"
  using example_rev2_flat conflicting_tt by (simp add: exclusive_def)

subsection \<open>Malformed and missing fields\<close>

lemma rev2_review_total:
  assumes "text_typed review"
  shows "\<exists>a. rev2_analyze_review sia review = Inr a"
proof -
  let ?r1 = "add_ratings empty_result (rev2_analyze_numeric_ratings review)"
  obtain r2 where r2: "rev2_add_salary review ?r1 = Inr r2"
    by (rule rev2_add_salary_cases [of review ?r1]) auto
  have "\<exists>r3. for_loop (rev2_text_field sia review) r2 text_field_names = Inr r3"
    using assms by (intro for_loop_total rev2_text_field_total) (simp add: text_typed_def)
  then obtain r3 where "for_loop (rev2_text_field sia review) r2 text_field_names = Inr r3"
    by blast
  with r2 show ?thesis
    by (simp add: rev2_analyze_review_def empty_result_def text_field_names_def)
qed

lemma tt_review_total:
  assumes "text_typed review"
  shows "\<exists>a. tt_analyze_review sia review = Inr a"
proof -
  let ?r1 = "add_ratings empty_result (tt_analyze_numeric_ratings review)"
  obtain r2 where r2: "tt_add_salary review ?r1 = Inr r2"
    by (rule tt_add_salary_cases [of review ?r1]) auto
  have "\<exists>r3. for_loop (tt_text_field sia review) r2 text_fields = Inr r3"
    using assms
    by (intro for_loop_total tt_text_field_total)
      (auto simp: text_typed_def text_fields_def text_field_names_def)
  then obtain r3 where "for_loop (tt_text_field sia review) r2 text_fields = Inr r3"
    by blast
  with r2 show ?thesis
    by (simp add: tt_analyze_review_def empty_result_def)
qed

lemma rating_no_verdict:
  assumes "(f, t) \<in> set rating_fields"
    and "case review f of None \<Rightarrow> True | Some v \<Rightarrow> \<not> is_int_or_float v"
  shows "map_of (rev2_analyze_numeric_ratings review) t = None \<and>
         map_of (tt_analyze_numeric_ratings review) t = None"
proof -
  from assms(1) consider "f = ''work_life_balance''" "t = ''work_life_balance''"
    | "f = ''career_growth''" "t = ''career_growth''"
    | "f = ''leadership_management''" "t = ''leadership''"
    | "f = ''innovation''" "t = ''innovation''"
    unfolding rating_fields_def by fastforce
  then show ?thesis
    using assms(2)
    by cases
      (auto simp: rev2_analyze_numeric_ratings_def tt_analyze_numeric_ratings_def
        rating_fields_def map_of_rev2_rating_step map_of_tt_rating_step split: option.splits)
qed

lemma text_field_cases:
  assumes "f \<in> set text_field_names"
  obtains "f = ''headline''" | "f = ''pros''" | "f = ''cons''"
  using assms by (auto simp: text_field_names_def)

lemma rev2_ratings_ignore_text:
  assumes "f \<in> set text_field_names"
  shows "rev2_analyze_numeric_ratings (review(f := x)) = rev2_analyze_numeric_ratings review"
  using assms
  by (rule text_field_cases)
    (simp_all add: rev2_analyze_numeric_ratings_def rating_fields_def rev2_rating_step_def)

lemma tt_ratings_ignore_text:
  assumes "f \<in> set text_field_names"
  shows "tt_analyze_numeric_ratings (review(f := x)) = tt_analyze_numeric_ratings review"
  using assms
  by (rule text_field_cases)
    (simp_all add: tt_analyze_numeric_ratings_def rating_fields_def tt_rating_step_def)

lemma rev2_salary_ignores_text:
  assumes "f \<in> set text_field_names"
  shows "rev2_add_salary (review(f := x)) r = rev2_add_salary review r"
  using assms by (rule text_field_cases) (simp_all add: rev2_add_salary_def)

lemma tt_salary_ignores_text:
  assumes "f \<in> set text_field_names"
  shows "tt_add_salary (review(f := x)) r = tt_add_salary review r"
  using assms by (rule text_field_cases) (simp_all add: tt_add_salary_def split: option.splits)

lemma rev2_text_field_drop_empty:
  assumes "case review f of None \<Rightarrow> True | Some v \<Rightarrow> \<not> truthy v"
  shows "rev2_text_field sia (review(f := None)) r g = rev2_text_field sia review r g"
  using assms by (simp add: rev2_text_field_def split: option.splits)

lemma tt_text_field_drop_empty:
  assumes "case review f of None \<Rightarrow> True | Some v \<Rightarrow> \<not> truthy v"
  shows "tt_text_field sia (review(f := None)) r g = tt_text_field sia review r g"
  using assms by (simp add: tt_text_field_def split: option.splits)

lemma empty_text_ignored:
  assumes f: "f \<in> set text_field_names"
    and e: "case review f of None \<Rightarrow> True | Some v \<Rightarrow> \<not> truthy v"
  shows "rev2_analyze_review sia (review(f := None)) = rev2_analyze_review sia review \<and>
         tt_analyze_review sia (review(f := None)) = tt_analyze_review sia review"
proof -
  have "rev2_text_field sia (review(f := None)) = rev2_text_field sia review"
    using rev2_text_field_drop_empty [of review f sia] e by (intro ext) simp
  moreover have "tt_text_field sia (review(f := None)) = tt_text_field sia review"
    using tt_text_field_drop_empty [of review f sia] e by (intro ext) simp
  ultimately show ?thesis
    by (simp add: rev2_analyze_review_def tt_analyze_review_def rev2_ratings_ignore_text [OF f]
        tt_ratings_ignore_text [OF f] rev2_salary_ignores_text [OF f]
        tt_salary_ignores_text [OF f] cong: sum.case_cong)
qed

lemma rev2_unparsable_salary_neutral:
  assumes cr: "review ''compensation_range'' = Some (VStr s)" and m: "malformed_range s"
    and cur: "review ''currency'' = Some c"
    and a: "rev2_analyze_review sia review = Inr a"
  shows "''compensation'' \<in> set (neutral a)"
proof -
  let ?r1 = "add_ratings empty_result (rev2_analyze_numeric_ratings review)"
  from a obtain r2 r3 where
    r2: "rev2_add_salary review ?r1 = Inr r2"
    and r3: "for_loop (rev2_text_field sia review) r2 text_field_names = Inr r3"
    and a: "a = dedup_sort r3"
    by (rule rev2_analyze_review_stages)
  have "r2 = append_to ?r1 Neutral ''compensation''"
    using r2 cr cur salary_malformed_neutral [OF m, of c]
    by (simp add: rev2_add_salary_def)
  then have "''compensation'' \<in> set (bucket Neutral r2)"
    by simp
  with rev2_text_loop_grows [OF r3, of Neutral] show ?thesis
    using bucket_dedup_sort [of Neutral r3] set_sorted_set [of "bucket Neutral r3"]
    by (auto simp: a)
qed

lemma tt_unparsable_salary_neutral:
  assumes cr: "review ''compensation_range'' = Some (VStr s)" and m: "malformed_range s"
    and a: "tt_analyze_review sia review = Inr a"
  shows "''compensation'' \<in> set (neutral a)"
proof -
  let ?r1 = "add_ratings empty_result (tt_analyze_numeric_ratings review)"
  from a obtain r2 r3 where
    r2: "tt_add_salary review ?r1 = Inr r2"
    and r3: "for_loop (tt_text_field sia review) r2 text_fields = Inr r3"
    and a: "a = dedup_sort r3"
    by (rule tt_analyze_review_stages)
  have "r2 = append_to ?r1 Neutral ''compensation''"
    using r2 cr salary_malformed_neutral [OF m]
    by (simp add: tt_add_salary_def)
  then have "''compensation'' \<in> set (bucket Neutral r2)"
    by simp
  with tt_text_loop_grows [OF r3, of Neutral] show ?thesis
    using bucket_dedup_sort [of Neutral r3] set_sorted_set [of "bucket Neutral r3"]
    by (auto simp: a)
qed

lemma malformed_review_typed: "text_typed malformed_review"
  by (simp add: text_typed_def text_field_names_def malformed_review_def)

lemma numeric_headline_raises:
  "rev2_analyze_review flat_scorer numeric_headline_review = Inl AttributeError"
  "tt_analyze_review flat_scorer numeric_headline_review = Inl AttributeError"
  by code_simp+

lemma unparsable_salary_recorded:
  "rev2_analyze_review flat_scorer unparsable_salary_review =
     Inr \<lparr>positive = [], negative = [], neutral = [''compensation'']\<rparr>"
  "tt_analyze_review flat_scorer unparsable_salary_review =
     Inr \<lparr>positive = [], negative = [], neutral = [''compensation'']\<rparr>"
  by code_simp+

text \<open>
  C6 (as the code has it). For every review whose non-empty \<open>headline\<close>, \<open>pros\<close> and
  \<open>cons\<close> values are text, \<open>analyze_review\<close> returns a result and never raises. A missing
  or wrong-typed rating gives its theme no verdict; an empty or missing text field changes
  nothing (the result is that of the review without the field); an unparsable salary range
  does not stop the analysis, but it is recorded: \<open>compensation\<close> is put in the neutral
  bucket (in \<open>rev2.py\<close> when a currency is present).
\<close>

theorem C6_malformed_fields_absorbed:
  assumes "text_typed review"
  shows "(\<exists>a. rev2_analyze_review sia review = Inr a) \<and>
         (\<exists>a. tt_analyze_review sia review = Inr a) \<and>
         (\<forall>f t. (f, t) \<in> set rating_fields \<longrightarrow>
            (case review f of None \<Rightarrow> True | Some v \<Rightarrow> \<not> is_int_or_float v) \<longrightarrow>
            map_of (rev2_analyze_numeric_ratings review) t = None \<and>
            map_of (tt_analyze_numeric_ratings review) t = None) \<and>
         (\<forall>f \<in> set text_field_names.
            (case review f of None \<Rightarrow> True | Some v \<Rightarrow> \<not> truthy v) \<longrightarrow>
            rev2_analyze_review sia (review(f := None)) = rev2_analyze_review sia review \<and>
            tt_analyze_review sia (review(f := None)) = tt_analyze_review sia review) \<and>
         (\<forall>s. review ''compensation_range'' = Some (VStr s) \<longrightarrow> malformed_range s \<longrightarrow>
            (\<forall>a. tt_analyze_review sia review = Inr a \<longrightarrow> ''compensation'' \<in> set (neutral a)) \<and>
            (\<forall>a c. review ''currency'' = Some c \<longrightarrow> rev2_analyze_review sia review = Inr a \<longrightarrow>
               ''compensation'' \<in> set (neutral a)))"
  using rev2_review_total [OF assms, of sia] tt_review_total [OF assms, of sia]
    rating_no_verdict [of _ _ review] empty_text_ignored [of _ review sia]
    rev2_unparsable_salary_neutral [of review _ _ sia] tt_unparsable_salary_neutral [of review _ sia]
  by blast

theorem C6_malformed_fields_absorbed_witness:
  "text_typed malformed_review \<and>
   (\<exists>a. rev2_analyze_review flat_scorer malformed_review = Inr a) \<and>
   (\<exists>a. tt_analyze_review flat_scorer malformed_review = Inr a) \<and>
   map_of (rev2_analyze_numeric_ratings malformed_review) ''work_life_balance'' = None \<and>
   rev2_analyze_review flat_scorer (malformed_review(''headline'' := None)) =
     rev2_analyze_review flat_scorer malformed_review \<and>
   ''compensation'' \<in> set (neutral \<lparr>positive = [''work_life_balance''], negative = [],
                                       neutral = [''compensation'']\<rparr>)"
proof -
  have rf: "(''work_life_balance'', ''work_life_balance'') \<in> set rating_fields"
    by (simp add: rating_fields_def)
  have wl: "case malformed_review ''work_life_balance'' of None \<Rightarrow> True
            | Some v \<Rightarrow> \<not> is_int_or_float v"
    by (simp add: malformed_review_def)
  have hf: "''headline'' \<in> set text_field_names"
    by (simp add: text_field_names_def)
  have he: "case malformed_review ''headline'' of None \<Rightarrow> True | Some v \<Rightarrow> \<not> truthy v"
    by (simp add: malformed_review_def)
  have cr: "malformed_review ''compensation_range'' = Some (VStr ''not-a-range'')"
    by (simp add: malformed_review_def)
  have m: "malformed_range ''not-a-range''"
    by (simp add: malformed_range_def isdigit_def)
  have tt: "tt_analyze_review flat_scorer malformed_review =
              Inr \<lparr>positive = [''work_life_balance''], negative = [],
                   neutral = [''compensation'']\<rparr>"
    by code_simp
  show ?thesis
    using C6_malformed_fields_absorbed [OF malformed_review_typed, of flat_scorer]
      malformed_review_typed rf wl hf he cr m tt
    by blast
qed

theorem C6_raise_counterexample:
  "rev2_analyze_review flat_scorer numeric_headline_review = Inl AttributeError \<and>
   tt_analyze_review flat_scorer numeric_headline_review = Inl AttributeError \<and>
   rev2_analyze_review flat_scorer unparsable_salary_review =
     Inr \<lparr>positive = [], negative = [], neutral = [''compensation'']\<rparr> \<and>
   tt_analyze_review flat_scorer unparsable_salary_review =
     Inr \<lparr>positive = [], negative = [], neutral = [''compensation'']\<rparr>"
  using numeric_headline_raises unparsable_salary_recorded by simp

section \<open>Properties of the aggregator\<close>

lemma set_order_ok_Nil:
  assumes "set_order_ok set_order"
  shows "set_order [] = []"
proof -
  from assms have "set (set_order []) = set []"
    unfolding set_order_ok_def by blast
  then show ?thesis by simp
qed

lemma first_seen_ok: "set_order_ok first_seen"
  by (simp add: set_order_ok_def first_seen_def)

lemma remdups_ok: "set_order_ok remdups"
  by (simp add: set_order_ok_def)

lemma sorted_by_percentage_Nil: "sorted_by_percentage [] = Inr []"
  by (simp add: sorted_by_percentage_def)

lemma generate_summary_Nil:
  assumes "set_order_ok set_order"
  shows "generate_summary analyze decide render set_order [] =
           Inr \<lparr>positive = [], negative = [], neutral = []\<rparr>"
  by (simp add: generate_summary_def empty_tally_def set_order_ok_Nil [OF assms]
      summary_lines_def sorted_by_percentage_Nil)

text \<open>
  C2. \<open>generate_summary\<close> applied to no reviews returns the summary with three empty
  lists and raises nothing: with no review there is no theme, so the loop that divides by
  \<open>total_reviews\<close> is never entered.
\<close>

theorem C2_empty_corpus:
  assumes "set_order_ok set_order"
  shows "rev2_generate_summary sia set_order [] =
           Inr \<lparr>positive = [], negative = [], neutral = []\<rparr> \<and>
         tt_generate_summary sia set_order [] =
           Inr \<lparr>positive = [], negative = [], neutral = []\<rparr>"
  by (simp add: rev2_generate_summary_def tt_generate_summary_def generate_summary_Nil [OF assms])

theorem C2_empty_corpus_witness:
  "set_order_ok first_seen \<and>
   rev2_generate_summary flat_scorer first_seen [] =
     Inr \<lparr>positive = [], negative = [], neutral = []\<rparr> \<and>
   tt_generate_summary flat_scorer first_seen [] =
     Inr \<lparr>positive = [], negative = [], neutral = []\<rparr>"
  using C2_empty_corpus [OF first_seen_ok, of flat_scorer] first_seen_ok by simp

subsection \<open>Floating point\<close>

lemma ilog2_bounds: "0 < n \<Longrightarrow> 2 ^ ilog2 n \<le> n \<and> n < 2 ^ Suc (ilog2 n)"
proof (induction n rule: ilog2.induct)
  case (1 n)
  show ?case
  proof (cases "n < 2")
    case True
    with "1.prems" have "n = 1" by simp
    then show ?thesis by (simp add: ilog2.simps)
  next
    case False
    then have "0 < n div 2" by simp
    from "1.IH" [OF False this]
    have "2 ^ ilog2 (n div 2) \<le> n div 2" "n div 2 < 2 ^ Suc (ilog2 (n div 2))"
      by simp_all
    moreover have "ilog2 n = Suc (ilog2 (n div 2))"
      using False by (subst ilog2.simps) simp
    ultimately show ?thesis
      by simp linarith
  qed
qed

lemma pow2_powi: "pow2 e = 2 powi e"
  by (simp add: pow2_def power_int_def inverse_eq_divide power_one_over)

lemma pow2_pos: "0 < pow2 e"
  by (simp add: pow2_powi)

lemma pow2_nat: "pow2 (int k) = 2 ^ k"
  by (simp add: pow2_powi)

lemma pow2_Suc: "pow2 (e + 1) = 2 * pow2 e"
  by (simp add: pow2_powi power_int_add)

lemma pow2_mono: "a \<le> b \<Longrightarrow> pow2 a \<le> pow2 b"
  by (simp add: pow2_powi power_int_increasing)

lemma pow2_add: "pow2 (a + b) = pow2 a * pow2 b"
  by (simp add: pow2_powi power_int_add)

lemma of_nat_pow2_le: "2 ^ k \<le> n \<Longrightarrow> (2::rat) ^ k \<le> of_nat n"
proof -
  assume "2 ^ k \<le> n"
  then have "(of_nat (2 ^ k) :: rat) \<le> of_nat n"
    by (simp only: of_nat_le_iff)
  then show ?thesis by simp
qed

lemma of_nat_Suc_le_pow2: "n < 2 ^ k \<Longrightarrow> (of_nat n + 1 :: rat) \<le> 2 ^ k"
proof -
  assume "n < 2 ^ k"
  then have "Suc n \<le> 2 ^ k" by simp
  then have "(of_nat (Suc n) :: rat) \<le> of_nat (2 ^ k)"
    by (simp only: of_nat_le_iff)
  then show ?thesis by (simp add: add.commute)
qed

lemma binade_ge1:
  assumes "1 \<le> x"
  shows "pow2 (binade x) \<le> x \<and> x < pow2 (binade x + 1)"
proof -
  define n where "n = nat \<lfloor>x\<rfloor>"
  have fl: "1 \<le> \<lfloor>x\<rfloor>" using assms by (simp add: le_floor_iff)
  then have n0: "0 < n" by (simp add: n_def)
  have "of_int \<lfloor>x\<rfloor> \<le> x" "x < of_int \<lfloor>x\<rfloor> + 1"
    by linarith+
  moreover have "(of_int \<lfloor>x\<rfloor> :: rat) = of_nat n"
    using fl by (simp add: n_def)
  ultimately have n: "of_nat n \<le> x" "x < of_nat n + 1"
    by simp_all
  from ilog2_bounds [OF n0] have b: "2 ^ ilog2 n \<le> n" "n < 2 ^ Suc (ilog2 n)"
    by simp_all
  have be: "binade x = int (ilog2 n)"
    using assms by (simp add: binade_def n_def)
  have "pow2 (binade x) \<le> of_nat n"
    unfolding be pow2_nat by (rule of_nat_pow2_le [OF b(1)])
  moreover have "of_nat n + 1 \<le> pow2 (binade x + 1)"
    using of_nat_Suc_le_pow2 [OF b(2)] pow2_nat [of "Suc (ilog2 n)"]
    by (simp add: be add.commute)
  ultimately show ?thesis
    using n by linarith
qed

lemma binade_lt1:
  assumes "0 < x" and "x < 1"
  shows "pow2 (binade x) \<le> x \<and> x < pow2 (binade x + 1)"
proof -
  define y where "y = 1 / x"
  define m where "m = nat (\<lceil>y\<rceil> - 1)"
  have y1: "1 < y"
    using assms by (simp add: y_def)
  then have c2: "2 \<le> \<lceil>y\<rceil>"
    by (simp add: le_ceiling_iff)
  then have m0: "0 < m" by (simp add: m_def)
  have "of_int \<lceil>y\<rceil> - 1 < y" "y \<le> of_int \<lceil>y\<rceil>"
    by linarith+
  moreover have "(of_int \<lceil>y\<rceil> :: rat) = of_nat m + 1"
    using c2 by (simp add: m_def)
  ultimately have m: "of_nat m < y" "y \<le> of_nat m + 1"
    by simp_all
  from ilog2_bounds [OF m0] have b: "2 ^ ilog2 m \<le> m" "m < 2 ^ Suc (ilog2 m)"
    by simp_all
  have lo: "(2::rat) ^ ilog2 m < y"
    using of_nat_pow2_le [OF b(1)] m(1) by linarith
  have hi: "y \<le> 2 ^ Suc (ilog2 m)"
    using of_nat_Suc_le_pow2 [OF b(2)] m(2) by linarith
  have be: "binade x = - int (Suc (ilog2 m))"
    using assms by (simp add: binade_def m_def y_def)
  have "nat (int (ilog2 m) + 1) = Suc (ilog2 m)" by simp
  then have p1: "pow2 (binade x) = 1 / 2 ^ Suc (ilog2 m)"
    unfolding be by (simp add: pow2_def del: power_Suc)
  have p2: "pow2 (binade x + 1) = 1 / 2 ^ ilog2 m"
    unfolding be by (simp add: pow2_def)
  have x: "x = 1 / y" by (simp add: y_def)
  have ypos: "0 < y" using y1 by simp
  have "1 / 2 ^ Suc (ilog2 m) \<le> 1 / y"
    using hi ypos by (intro divide_left_mono) simp_all
  then have A: "pow2 (binade x) \<le> x"
    by (simp only: p1 x [symmetric])
  have "1 / y < 1 / 2 ^ ilog2 m"
    using lo ypos by (intro divide_strict_left_mono) simp_all
  then have B: "x < pow2 (binade x + 1)"
    by (simp only: p2 x [symmetric])
  from A B show ?thesis ..
qed

lemma binade_bounds:
  assumes "0 < x"
  shows "pow2 (binade x) \<le> x \<and> x < pow2 (binade x + 1)"
  using binade_ge1 [of x] binade_lt1 [of x] assms by (cases "1 \<le> x") simp_all

lemma binade_mono:
  assumes "0 < x" and "x \<le> y"
  shows "binade x \<le> binade y"
proof (rule ccontr)
  assume "\<not> binade x \<le> binade y"
  then have "binade y + 1 \<le> binade x" by simp
  then have "pow2 (binade y + 1) \<le> pow2 (binade x)" by (rule pow2_mono)
  moreover have "y < pow2 (binade y + 1)" "pow2 (binade x) \<le> x"
    using binade_bounds [of x] binade_bounds [of y] assms by simp_all
  ultimately show False using assms(2) by linarith
qed

lemma round_half_even_bounds:
  "of_int \<lfloor>x\<rfloor> \<le> (of_int (round_half_even x) :: rat) \<and>
   round_half_even x \<le> \<lfloor>x\<rfloor> + 1"
  by (simp add: round_half_even_def Let_def)

lemma round_half_even_of_int: "round_half_even (of_int k) = k"
  by (simp add: round_half_even_def)

lemma round_half_even_mono:
  assumes "x \<le> y"
  shows "round_half_even x \<le> round_half_even y"
proof (cases "\<lfloor>x\<rfloor> = \<lfloor>y\<rfloor>")
  case True
  have "x - of_int \<lfloor>x\<rfloor> \<le> y - of_int \<lfloor>y\<rfloor>"
    using assms True by simp
  then show ?thesis
    unfolding round_half_even_def Let_def True by auto
next
  case False
  have "\<lfloor>x\<rfloor> \<le> \<lfloor>y\<rfloor>" using assms by (rule floor_mono)
  with False have "\<lfloor>x\<rfloor> + 1 \<le> \<lfloor>y\<rfloor>" by simp
  moreover have "round_half_even x \<le> \<lfloor>x\<rfloor> + 1"
    using round_half_even_bounds [of x] by simp
  moreover have "\<lfloor>y\<rfloor> \<le> round_half_even y"
    using round_half_even_bounds [of y] by simp
  ultimately show ?thesis by linarith
qed

lemma pow2_shift: "pow2 (e - int k) * 2 ^ k = pow2 e"
  using pow2_add [of "e - int k" "int k"] by (simp add: pow2_nat)

lemma float_round_pos_bounds:
  assumes "0 < x"
  shows "pow2 (binade x) \<le> float_round_pos x \<and> float_round_pos x \<le> pow2 (binade x + 1)"
proof -
  define s where "s = pow2 (binade x - 52)"
  define K :: int where "K = 2 ^ 52"
  define m where "m = round_half_even (x / s)"
  have s: "0 < s" by (simp add: s_def pow2_pos)
  have a: "pow2 (binade x) = of_int K * s"
    using pow2_shift [of "binade x" 52] by (simp add: s_def K_def mult.commute)
  have b: "pow2 (binade x + 1) = of_int (2 * K) * s"
    unfolding pow2_Suc a by simp
  from binade_bounds [OF assms] have "of_int K * s \<le> x" "x < of_int (2 * K) * s"
    unfolding a b by simp_all
  then have r: "of_int K \<le> x / s" "x / s \<le> of_int (2 * K)"
    using s by (simp_all add: pos_le_divide_eq pos_divide_le_eq)
  have "K \<le> m"
    using round_half_even_mono [OF r(1)] by (simp add: m_def round_half_even_of_int)
  moreover have "m \<le> 2 * K"
    using round_half_even_mono [OF r(2)] unfolding round_half_even_of_int by (simp add: m_def)
  ultimately have "(of_int K :: rat) \<le> of_int m" "(of_int m :: rat) \<le> of_int (2 * K)"
    by (simp_all only: of_int_le_iff)
  then have "of_int K * s \<le> of_int m * s" "of_int m * s \<le> of_int (2 * K) * s"
    using s by (simp_all only: mult_le_cancel_right_pos)
  moreover have "float_round_pos x = of_int m * s"
    by (simp add: float_round_pos_def m_def s_def Let_def)
  ultimately show ?thesis
    unfolding a b by simp
qed

lemma float_round_pos_mono:
  assumes "0 < x" and "x \<le> y"
  shows "float_round_pos x \<le> float_round_pos y"
proof (cases "binade x = binade y")
  case True
  have "x / pow2 (binade y - 52) \<le> y / pow2 (binade y - 52)"
    using assms(2) pow2_pos [of "binade y - 52"] by (simp add: divide_right_mono)
  then have "round_half_even (x / pow2 (binade y - 52)) \<le>
             round_half_even (y / pow2 (binade y - 52))"
    by (rule round_half_even_mono)
  then show ?thesis
    unfolding float_round_pos_def Let_def True
    using pow2_pos [of "binade y - 52"] by (simp add: mult_right_mono)
next
  case False
  with binade_mono [OF assms] have "binade x + 1 \<le> binade y" by simp
  then have "pow2 (binade x + 1) \<le> pow2 (binade y)" by (rule pow2_mono)
  moreover have "float_round_pos x \<le> pow2 (binade x + 1)"
    using float_round_pos_bounds [OF assms(1)] by simp
  moreover have "pow2 (binade y) \<le> float_round_pos y"
    using float_round_pos_bounds [of y] assms by simp
  ultimately show ?thesis by linarith
qed

lemma float_round_pos_positive: "0 < x \<Longrightarrow> 0 < float_round_pos x"
  using float_round_pos_bounds [of x] pow2_pos [of "binade x"] by linarith

lemma float_round_nonneg: "0 \<le> x \<Longrightarrow> 0 \<le> float_round x"
  using float_round_pos_positive [of x] by (auto simp: float_round_def less_eq_rat_def)

lemma float_round_positive: "0 < x \<Longrightarrow> 0 < float_round x"
  using float_round_pos_positive [of x] by (simp add: float_round_def)

lemma float_round_mono:
  assumes "0 \<le> x" and "x \<le> y"
  shows "float_round x \<le> float_round y"
proof (cases "x = 0")
  case True
  then show ?thesis
    using float_round_nonneg [of y] assms by (simp add: float_round_def)
next
  case False
  with assms have "0 < x" "0 < y" by simp_all
  then show ?thesis
    using float_round_pos_mono [of x y] assms(2) by (simp add: float_round_def)
qed

lemma percent_total:
  assumes "0 < n"
  shows "percent k n = Inr (float_mul (float_round (of_nat k / of_nat n)) 100)"
  using assms by (simp add: percent_def int_truediv_def)

lemma percent_zero: "0 < n \<Longrightarrow> percent 0 n = Inr 0"
  by (simp add: percent_total float_round_def float_mul_def)

lemma percent_positive:
  assumes "0 < n" and "0 < k" and "percent k n = Inr p"
  shows "0 < p"
proof -
  have "0 < float_round (of_nat k / of_nat n)"
    using assms by (intro float_round_positive) simp
  then have "0 < float_round (float_round (of_nat k / of_nat n) * 100)"
    by (intro float_round_positive) simp
  with assms show ?thesis
    by (simp add: percent_total float_mul_def)
qed

lemma percent_nonneg:
  assumes "percent k n = Inr p"
  shows "0 \<le> p"
proof (cases "n = 0")
  case True
  with assms show ?thesis by (simp add: percent_def int_truediv_def)
next
  case False
  have "0 \<le> float_round (of_nat k / of_nat n)"
    by (intro float_round_nonneg) simp
  then have "0 \<le> float_round (float_round (of_nat k / of_nat n) * 100)"
    by (intro float_round_nonneg) simp
  with assms False show ?thesis
    by (simp add: percent_total float_mul_def)
qed

lemma percent_mono_ratio:
  assumes "0 < n" and "0 < n'" and "(of_nat k / of_nat n :: rat) \<le> of_nat k' / of_nat n'"
    and "percent k n = Inr p" and "percent k' n' = Inr p'"
  shows "p \<le> p'"
proof -
  have "float_round (of_nat k / of_nat n) \<le> float_round (of_nat k' / of_nat n')"
    using assms(3) by (intro float_round_mono) simp_all
  moreover have "0 \<le> float_round (of_nat k / of_nat n)"
    by (intro float_round_nonneg) simp
  ultimately have "float_round (float_round (of_nat k / of_nat n) * 100) \<le>
                   float_round (float_round (of_nat k' / of_nat n') * 100)"
    by (intro float_round_mono) simp_all
  with assms show ?thesis
    by (simp add: percent_total float_mul_def)
qed

subsection \<open>Dominant sentiment in the flat-catalog aggregator\<close>

lemma rev2_dominant_positive:
  assumes "pos_pct = max pos_pct (max neg_pct neu_pct)" and "0 < pos_pct"
  shows "rev2_dominant pos_pct neg_pct neu_pct = (Positive, pos_pct)"
  using assms by (simp add: rev2_dominant_def Let_def)

lemma rev2_dominant_neutral:
  assumes "fst (rev2_dominant pos_pct neg_pct neu_pct) = Neutral"
    and "0 < max pos_pct (max neg_pct neu_pct)"
  shows "pos_pct < neu_pct \<and> neg_pct < neu_pct"
  using assms by (auto simp: rev2_dominant_def Let_def max_def split: if_splits)

lemma theme_step_rev2:
  assumes "percent (dict_get (positive_counts all_themes) theme) total_reviews = Inr pos_pct"
    and "percent (dict_get (negative_counts all_themes) theme) total_reviews = Inr neg_pct"
    and "percent (dict_get (neutral_counts all_themes) theme) total_reviews = Inr neu_pct"
  shows "theme_step rev2_decide all_themes total_reviews theme_sentiments theme =
           Inr (if max pos_pct (max neg_pct neu_pct) \<ge> 20
                then dict_set theme_sentiments theme (rev2_dominant pos_pct neg_pct neu_pct)
                else theme_sentiments)"
  using assms by (simp add: theme_step_def rev2_decide_def Let_def)

lemma percent_2_5: "percent 2 5 = Inr 40"
  by code_simp

lemma percent_1_5: "percent 1 5 = Inr 20"
  by code_simp

text \<open>
  C10. In the flat-catalog aggregator (\<open>rev2.py\<close>), let the three percentages of a theme
  be those the loop computes from its counts. When the positive percentage equals the
  maximum of the three and is greater than zero, the dominant polarity is positive with
  that percentage; so a tie between positive and negative at the maximum goes to
  positive. For a tallied theme (one with a count in some polarity) the maximum is greater
  than zero, hence neutral is dominant only when its percentage is strictly greater than
  both others. The loop stores exactly this verdict for the theme when the maximum
  reaches 20.
\<close>

theorem C10_dominant_polarity:
  assumes "0 < total_reviews"
    and "percent (dict_get (positive_counts all_themes) theme) total_reviews = Inr pos_pct"
    and "percent (dict_get (negative_counts all_themes) theme) total_reviews = Inr neg_pct"
    and "percent (dict_get (neutral_counts all_themes) theme) total_reviews = Inr neu_pct"
  shows "(pos_pct = max pos_pct (max neg_pct neu_pct) \<and> 0 < pos_pct \<longrightarrow>
            rev2_dominant pos_pct neg_pct neu_pct = (Positive, pos_pct)) \<and>
         (pos_pct = neg_pct \<and> neu_pct \<le> pos_pct \<and> 0 < pos_pct \<longrightarrow>
            rev2_dominant pos_pct neg_pct neu_pct = (Positive, pos_pct)) \<and>
         (0 < dict_get (positive_counts all_themes) theme +
              dict_get (negative_counts all_themes) theme +
              dict_get (neutral_counts all_themes) theme \<longrightarrow>
            0 < max pos_pct (max neg_pct neu_pct) \<and>
            (pos_pct = max pos_pct (max neg_pct neu_pct) \<longrightarrow>
               rev2_dominant pos_pct neg_pct neu_pct = (Positive, pos_pct)) \<and>
            (fst (rev2_dominant pos_pct neg_pct neu_pct) = Neutral \<longrightarrow>
               pos_pct < neu_pct \<and> neg_pct < neu_pct)) \<and>
         theme_step rev2_decide all_themes total_reviews theme_sentiments theme =
           Inr (if max pos_pct (max neg_pct neu_pct) \<ge> 20
                then dict_set theme_sentiments theme (rev2_dominant pos_pct neg_pct neu_pct)
                else theme_sentiments)"
proof -
  have tie: "rev2_dominant pos_pct neg_pct neu_pct = (Positive, pos_pct)"
    if "pos_pct = neg_pct" "neu_pct \<le> pos_pct" "0 < pos_pct"
    using that by (intro rev2_dominant_positive) (simp_all add: max_def)
  have nonneg: "0 \<le> pos_pct" "0 \<le> neg_pct" "0 \<le> neu_pct"
    using assms(2-4) percent_nonneg by blast+
  have pos: "0 < max pos_pct (max neg_pct neu_pct)"
    if "0 < dict_get (positive_counts all_themes) theme +
            dict_get (negative_counts all_themes) theme +
            dict_get (neutral_counts all_themes) theme"
  proof -
    from that consider "0 < dict_get (positive_counts all_themes) theme"
      | "0 < dict_get (negative_counts all_themes) theme"
      | "0 < dict_get (neutral_counts all_themes) theme"
      by linarith
    then show ?thesis
    proof cases
      case 1
      from percent_positive [OF assms(1) this assms(2)] nonneg show ?thesis
        by (simp add: max_def)
    next
      case 2
      from percent_positive [OF assms(1) this assms(3)] nonneg show ?thesis
        by (simp add: max_def)
    next
      case 3
      from percent_positive [OF assms(1) this assms(4)] nonneg show ?thesis
        by (simp add: max_def)
    qed
  qed
  have tallied: "(pos_pct = max pos_pct (max neg_pct neu_pct) \<longrightarrow>
               rev2_dominant pos_pct neg_pct neu_pct = (Positive, pos_pct)) \<and>
            (fst (rev2_dominant pos_pct neg_pct neu_pct) = Neutral \<longrightarrow>
               pos_pct < neu_pct \<and> neg_pct < neu_pct)"
    if m: "0 < max pos_pct (max neg_pct neu_pct)"
  proof (intro conjI impI)
    assume e: "pos_pct = max pos_pct (max neg_pct neu_pct)"
    with m have "0 < pos_pct" by simp
    with e show "rev2_dominant pos_pct neg_pct neu_pct = (Positive, pos_pct)"
      by (rule rev2_dominant_positive)
  next
    assume "fst (rev2_dominant pos_pct neg_pct neu_pct) = Neutral"
    from rev2_dominant_neutral [OF this m]
    show "pos_pct < neu_pct" "neg_pct < neu_pct" by simp_all
  qed
  show ?thesis
  proof (intro conjI impI)
    assume "pos_pct = max pos_pct (max neg_pct neu_pct) \<and> 0 < pos_pct"
    then show "rev2_dominant pos_pct neg_pct neu_pct = (Positive, pos_pct)"
      using rev2_dominant_positive by blast
  next
    assume "pos_pct = neg_pct \<and> neu_pct \<le> pos_pct \<and> 0 < pos_pct"
    then show "rev2_dominant pos_pct neg_pct neu_pct = (Positive, pos_pct)"
      using tie by blast
  next
    assume c: "0 < dict_get (positive_counts all_themes) theme +
              dict_get (negative_counts all_themes) theme +
              dict_get (neutral_counts all_themes) theme"
    show "0 < max pos_pct (max neg_pct neu_pct)"
      by (rule pos [OF c])
    {
      assume "pos_pct = max pos_pct (max neg_pct neu_pct)"
      then show "rev2_dominant pos_pct neg_pct neu_pct = (Positive, pos_pct)"
        using tallied [OF pos [OF c]] by blast
    }
    {
      assume "fst (rev2_dominant pos_pct neg_pct neu_pct) = Neutral"
      then show "pos_pct < neu_pct" "neg_pct < neu_pct"
        using tallied [OF pos [OF c]] by blast+
    }
  next
    show "theme_step rev2_decide all_themes total_reviews theme_sentiments theme =
           Inr (if max pos_pct (max neg_pct neu_pct) \<ge> 20
                then dict_set theme_sentiments theme (rev2_dominant pos_pct neg_pct neu_pct)
                else theme_sentiments)"
      by (rule theme_step_rev2 [OF assms(2-4)])
  qed
qed

theorem C10_dominant_polarity_witness:
  "rev2_dominant 40 40 20 = (Positive, 40) \<and>
   theme_step rev2_decide
     \<lparr>positive_counts = [(''compensation'', 2)], negative_counts = [(''compensation'', 2)],
      neutral_counts = [(''compensation'', 1)]\<rparr> 5 [] ''compensation'' =
     Inr [(''compensation'', Positive, 40)]"
proof -
  let ?T = "\<lparr>positive_counts = [(''compensation'', 2)], negative_counts = [(''compensation'', 2)],
             neutral_counts = [(''compensation'', 1)]\<rparr>"
  have a: "percent (dict_get (positive_counts ?T) ''compensation'') 5 = Inr 40"
    "percent (dict_get (negative_counts ?T) ''compensation'') 5 = Inr 40"
    "percent (dict_get (neutral_counts ?T) ''compensation'') 5 = Inr 20"
    using percent_2_5 percent_1_5 by (simp_all add: dict_get_def)
  from C10_dominant_polarity [OF _ a, of "[]"] show ?thesis
    by simp
qed

subsection \<open>The tally\<close>

lemma dict_get_incr:
  "dict_get (dict_incr d k) k' = dict_get d k' + (if k' = k then 1 else 0)"
  by (induction d) (auto simp: dict_get_def)

lemma keys_dict_incr: "set (map fst (dict_incr d k)) = insert k (set (map fst d))"
  by (induction d) force+

lemma dict_get_foldl_incr:
  "dict_get (foldl dict_incr d ts) k = dict_get d k + count_list ts k"
  by (induction ts arbitrary: d) (simp_all add: dict_get_incr)

lemma keys_foldl_incr:
  "set (map fst (foldl dict_incr d ts)) = set (map fst d) \<union> set ts"
proof (induction ts arbitrary: d)
  case Nil
  then show ?case by simp
next
  case (Cons t ts)
  show ?case
    unfolding foldl.simps Cons.IH keys_dict_incr by auto
qed

lemma counts_of_count_analysis:
  "counts_of s (count_analysis T a) = foldl dict_incr (counts_of s T) (bucket s a)"
  by (cases s) (simp_all add: count_analysis_def)

lemma occurrences_Nil: "occurrences analyze s t [] = 0"
  by (simp add: occurrences_def)

lemma occurrences_Cons:
  "occurrences analyze s t (r # rs) =
     (case analyze r of Inl e \<Rightarrow> 0 | Inr a \<Rightarrow> count_list (bucket s a) t) +
     occurrences analyze s t rs"
  by (simp add: occurrences_def)

lemma occurrences_perm:
  assumes "mset rs = mset rs'"
  shows "occurrences analyze s t rs = occurrences analyze s t rs'"
proof -
  let ?f = "\<lambda>r. case analyze r of Inl e \<Rightarrow> 0 | Inr a \<Rightarrow> count_list (bucket s a) t"
  have "mset (map ?f rs) = mset (map ?f rs')"
    using assms by (metis mset_map)
  then have "sum_mset (mset (map ?f rs)) = sum_mset (mset (map ?f rs'))"
    by simp
  then show ?thesis
    unfolding occurrences_def sum_mset_sum_list .
qed

lemma count_loop_Cons:
  "for_loop (count_review analyze) T (r # rs) =
     (case analyze r of
        Inl e \<Rightarrow> Inl e
      | Inr a \<Rightarrow> for_loop (count_review analyze) (count_analysis T a) rs)"
proof (cases "analyze r")
  case (Inl e)
  then have "count_review analyze T r = Inl e"
    by (simp add: count_review_def)
  with Inl show ?thesis by simp
next
  case (Inr a)
  then have "count_review analyze T r = Inr (count_analysis T a)"
    by (simp add: count_review_def)
  with Inr show ?thesis by simp
qed

lemma tally_loop_counts:
  assumes "for_loop (count_review analyze) T rs = Inr T'"
  shows "dict_get (counts_of s T') t = dict_get (counts_of s T) t + occurrences analyze s t rs"
  using assms
proof (induction rs arbitrary: T)
  case Nil
  then show ?case by (simp add: occurrences_Nil)
next
  case (Cons r rs)
  from Cons.prems obtain a where a: "analyze r = Inr a"
    and rest: "for_loop (count_review analyze) (count_analysis T a) rs = Inr T'"
    unfolding count_loop_Cons by (auto split: sum.splits)
  show ?case
    using Cons.IH [OF rest]
    by (simp add: occurrences_Cons a counts_of_count_analysis dict_get_foldl_incr)
qed

lemma tally_loop_keys:
  assumes "for_loop (count_review analyze) T rs = Inr T'"
  shows "set (map fst (counts_of s T')) =
           set (map fst (counts_of s T)) \<union> {t. 0 < occurrences analyze s t rs}"
  using assms
proof (induction rs arbitrary: T)
  case Nil
  then show ?case by (simp add: occurrences_Nil)
next
  case (Cons r rs)
  from Cons.prems obtain a where a: "analyze r = Inr a"
    and rest: "for_loop (count_review analyze) (count_analysis T a) rs = Inr T'"
    unfolding count_loop_Cons by (auto split: sum.splits)
  have "{t. 0 < occurrences analyze s t (r # rs)} =
          set (bucket s a) \<union> {t. 0 < occurrences analyze s t rs}"
    using count_list_0_iff [of "bucket s a"]
    by (auto simp: occurrences_Cons a)
  then show ?case
    using Cons.IH [OF rest]
    unfolding counts_of_count_analysis keys_foldl_incr by blast
qed

lemma tally_loop_total:
  assumes "\<And>r. r \<in> set rs \<Longrightarrow> \<exists>a. analyze r = Inr a"
  shows "\<exists>T'. for_loop (count_review analyze) T rs = Inr T'"
proof (rule for_loop_total)
  fix T r
  assume "r \<in> set rs"
  with assms obtain a where "analyze r = Inr a" by blast
  then show "\<exists>T'. count_review analyze T r = Inr T'"
    by (simp add: count_review_def)
qed

lemma tally_loop_error:
  assumes "for_loop (count_review analyze) T rs = Inl e"
  shows "\<exists>r \<in> set rs. analyze r = Inl e"
  using assms
proof (induction rs arbitrary: T)
  case Nil
  then show ?case by simp
next
  case (Cons r rs)
  then show ?case
    unfolding count_loop_Cons by (cases "analyze r") auto
qed

lemma tally_loop_raises:
  assumes "r \<in> set rs" and "analyze r = Inl e"
  shows "\<exists>e'. for_loop (count_review analyze) T rs = Inl e'"
proof (cases "for_loop (count_review analyze) T rs")
  case (Inl e')
  then show ?thesis by blast
next
  case (Inr T')
  have "\<exists>a. analyze r = Inr a" if "r \<in> set rs" for r
    using Inr that
  proof (induction rs arbitrary: T)
    case Nil
    then show ?case by simp
  next
    case (Cons x rs)
    then show ?case
      unfolding count_loop_Cons by (cases "analyze x") auto
  qed
  with assms show ?thesis by fastforce
qed

subsection \<open>The loop over the themes\<close>

lemma dict_set_fresh: "k \<notin> fst ` set d \<Longrightarrow> dict_set d k v = d @ [(k, v)]"
  by (induction d) auto

lemma theme_step_verdict:
  assumes "0 < n"
  shows "theme_step decide T n ts t =
           Inr (case tally_verdict decide T n t of None \<Rightarrow> ts | Some dp \<Rightarrow> dict_set ts t dp)"
  using assms
  by (simp add: theme_step_def percent_total computed_percent_def tally_verdict_def Let_def
      split: option.splits)

lemma included_Nil: "included v [] = []"
  by (simp add: included_def)

lemma included_Cons:
  "included v (t # ts) = (case v t of None \<Rightarrow> [] | Some dp \<Rightarrow> [(t, dp)]) @ included v ts"
  by (simp add: included_def)

lemma included_keys: "fst ` set (included v themes) \<subseteq> set themes"
  by (induction themes) (auto simp: included_Nil included_Cons split: option.splits)

lemma theme_loop:
  assumes "0 < n" and "distinct themes" and "set themes \<inter> fst ` set ts = {}"
  shows "for_loop (theme_step decide T n) ts themes =
           Inr (ts @ included (tally_verdict decide T n) themes)"
  using assms(2,3)
proof (induction themes arbitrary: ts)
  case Nil
  then show ?case by (simp add: included_Nil)
next
  case (Cons t themes)
  let ?ts' = "case tally_verdict decide T n t of None \<Rightarrow> ts | Some dp \<Rightarrow> dict_set ts t dp"
  have fresh: "t \<notin> fst ` set ts"
    using Cons.prems(2) by auto
  have ts': "?ts' = ts @ (case tally_verdict decide T n t of None \<Rightarrow> [] | Some dp \<Rightarrow> [(t, dp)])"
    using dict_set_fresh [OF fresh] by (simp split: option.splits)
  have "set themes \<inter> fst ` set ?ts' = {}"
    using Cons.prems unfolding ts' by (auto split: option.splits)
  with Cons.IH [of ?ts'] Cons.prems(1)
  have "for_loop (theme_step decide T n) ?ts' themes =
          Inr (?ts' @ included (tally_verdict decide T n) themes)"
    by simp
  then show ?case
    unfolding for_loop.simps theme_step_verdict [OF assms(1)] ts'
    by (simp add: included_Cons)
qed

subsection \<open>Sorting the lines\<close>

lemma comprehension_map:
  assumes "\<And>x. x \<in> set xs \<Longrightarrow> f x = Inr (g x)"
  shows "comprehension f xs = Inr (map g xs)"
  using assms by (induction xs) simp_all

lemma insort_key_zip:
  assumes "\<And>p. p \<in> set L \<Longrightarrow> fst p = g (snd p)"
  shows "map snd (insort_key (\<lambda>kx. h (fst kx)) (g x, x) L) =
           insort_key (\<lambda>x. h (g x)) x (map snd L)"
  using assms by (induction L) auto

lemma sort_key_zip:
  "map snd (sort_key (\<lambda>kx. h (fst kx)) (zip (map g xs) xs)) = sort_key (\<lambda>x. h (g x)) xs"
proof (induction xs)
  case Nil
  then show ?case by simp
next
  case (Cons x xs)
  have inv: "fst p = g (snd p)"
    if "p \<in> set (sort_key (\<lambda>kx. h (fst kx)) (zip (map g xs) xs))" for p
  proof -
    from that have "p \<in> set (zip (map g xs) xs)" by simp
    then show ?thesis
      by (auto simp: in_set_zip)
  qed
  show ?case
    using insort_key_zip [of "sort_key (\<lambda>kx. h (fst kx)) (zip (map g xs) xs)" g h x] inv Cons.IH
    by simp
qed

lemma sorted_by_percentage_value:
  assumes "\<And>x. x \<in> set xs \<Longrightarrow> \<exists>k. sort_key_of x = Inr k"
  shows "sorted_by_percentage xs = Inr (sort_key (\<lambda>x. - shown_percentage x) xs)"
proof -
  have "sort_key_of x = Inr (shown_percentage x)" if "x \<in> set xs" for x
    using assms [OF that] by (auto simp: shown_percentage_def)
  then have "comprehension sort_key_of xs = Inr (map shown_percentage xs)"
    by (rule comprehension_map)
  then show ?thesis
    using sort_key_zip [of uminus shown_percentage xs]
    by (simp add: sorted_by_percentage_def)
qed

lemma descending_sort: "descending (sort_key (\<lambda>x. - shown_percentage x) xs)"
  by (simp add: descending_def)

lemma sort_key_perm_inj:
  assumes "mset xs = mset ys" and "inj_on f (set xs)"
  shows "sort_key f xs = sort_key f ys"
proof (rule sort_key_inj_key_eq)
  show "mset xs = mset (sort_key f ys)" using assms(1) by simp
  show "inj_on f (set xs)" by (rule assms(2))
  show "sorted (map f (sort_key f ys))" by simp
qed

subsection \<open>Reading the percentage back from a rendered line\<close>

lemma split_on_no_sep: "c \<notin> set xs \<Longrightarrow> split_on c xs = [xs]"
  by (induction xs) auto

lemma split_on_append_sep:
  "c \<notin> set xs \<Longrightarrow> split_on c (xs @ c # ys) = xs # split_on c ys"
  by (induction xs) auto

lemma rstrip_suffix:
  assumes "\<And>c. c \<in> set suf \<Longrightarrow> c \<in> set chars" and "num \<noteq> []"
    and "last num \<notin> set chars"
  shows "rstrip chars (num @ suf) = num"
proof -
  have "dropWhile (\<lambda>c. c \<in> set chars) (rev suf @ rev num) =
          dropWhile (\<lambda>c. c \<in> set chars) (rev num)"
    using assms(1) by (intro dropWhile_append2) simp
  also have "\<dots> = rev num"
    using assms(2,3) by (cases "rev num") (auto simp: last_rev [symmetric] simp del: last_rev)
  finally show ?thesis
    by (simp add: rstrip_def)
qed

lemma digit_chars: "map digit_char [0, 1, 2, 3, 4, 5, 6, 7, 8, 9] = ''0123456789''"
  by code_simp

lemma digit_char_props:
  assumes "b < 10"
  shows "isdigit (digit_char b)" and "digit_char b \<noteq> CHR ''.''"
    and "digit_char b \<notin> set ''% of reviews)''" and "digit_char b \<noteq> CHR ''(''"
    and "of_char (digit_char b) - 48 = b"
proof -
  from assms consider "b = 0" | "b = 1" | "b = 2" | "b = 3" | "b = 4" | "b = 5" | "b = 6"
    | "b = 7" | "b = 8" | "b = 9"
    by atomize_elim arith
  then have "isdigit (digit_char b) \<and> digit_char b \<noteq> CHR ''.'' \<and>
      digit_char b \<notin> set ''% of reviews)'' \<and> digit_char b \<noteq> CHR ''('' \<and>
      of_char (digit_char b) - 48 = b"
    using digit_chars by cases (simp_all add: isdigit_def)
  then show "isdigit (digit_char b)" and "digit_char b \<noteq> CHR ''.''"
    and "digit_char b \<notin> set ''% of reviews)''" and "digit_char b \<noteq> CHR ''(''"
    and "of_char (digit_char b) - 48 = b"
    by simp_all
qed

lemma decimal_digits: "c \<in> set (decimal n) \<Longrightarrow> isdigit c \<and> c \<noteq> CHR ''.'' \<and> c \<noteq> CHR ''(''"
proof (induction n rule: decimal.induct)
  case (1 n)
  show ?case
  proof (cases "n < 10")
    case True
    with "1.prems" have "c = digit_char n"
      by (subst (asm) decimal.simps) simp
    with True digit_char_props [of n] show ?thesis by simp
  next
    case False
    with "1.prems" have "c \<in> set (decimal (n div 10)) \<or> c = digit_char (n mod 10)"
      by (subst (asm) decimal.simps) auto
    then show ?thesis
      using "1.IH" [OF False] digit_char_props [of "n mod 10"] by auto
  qed
qed

lemma nat_of_digits_snoc:
  "nat_of_digits (ds @ [c]) = 10 * nat_of_digits ds + (of_char c - 48)"
  by (simp add: nat_of_digits_def)

lemma nat_of_digits_decimal: "nat_of_digits (decimal n) = n"
proof (induction n rule: decimal.induct)
  case (1 n)
  show ?case
  proof (cases "n < 10")
    case True
    then have "decimal n = [digit_char n]"
      by (subst decimal.simps) simp
    with True digit_char_props(5) [of n] show ?thesis
      by (simp add: nat_of_digits_def)
  next
    case False
    then have "decimal n = decimal (n div 10) @ [digit_char (n mod 10)]"
      by (subst decimal.simps) simp
    then show ?thesis
      using "1.IH" [OF False] digit_char_props(5) [of "n mod 10"]
      by (simp add: nat_of_digits_snoc)
  qed
qed

lemma py_float_parts:
  assumes ip: "\<And>c. c \<in> set ip \<Longrightarrow> isdigit c \<and> c \<noteq> CHR ''.''"
    and fp: "\<And>c. c \<in> set fp \<Longrightarrow> isdigit c" and ne: "ip @ fp \<noteq> []"
  shows "py_float (ip @ CHR ''.'' # fp) =
           Inr (float_round (of_nat (nat_of_digits (ip @ fp)) / 10 ^ length fp))"
proof -
  have all: "\<forall>c \<in> set ip. c \<noteq> CHR ''.''"
    using ip by blast
  have tw: "takeWhile (\<lambda>c. c \<noteq> CHR ''.'') (ip @ CHR ''.'' # fp) = ip"
    using all by (simp add: takeWhile_tail)
  have "dropWhile (\<lambda>c. c \<noteq> CHR ''.'') ip = []"
    using all by simp
  then have dw: "dropWhile (\<lambda>c. c \<noteq> CHR ''.'') (ip @ CHR ''.'' # fp) = CHR ''.'' # fp"
    by (simp add: dropWhile_append3)
  have d1: "(\<forall>c \<in> set ip. isdigit c)" using ip by blast
  have d2: "(\<forall>c \<in> set fp. isdigit c)" using fp by blast
  show ?thesis
    unfolding py_float_def tw dw Let_def using d1 d2 ne by simp
qed

lemma py_float_one_decimal:
  assumes "b < 10"
  shows "py_float (decimal a @ ''.'' @ [digit_char b]) =
           Inr (float_round (of_nat (10 * a + b) / 10))"
proof -
  have val: "nat_of_digits (decimal a @ [digit_char b]) = 10 * a + b"
    using digit_char_props(5) [OF assms] by (simp add: nat_of_digits_snoc nat_of_digits_decimal)
  have "py_float (decimal a @ CHR ''.'' # [digit_char b]) =
          Inr (float_round (of_nat (nat_of_digits (decimal a @ [digit_char b])) /
                10 ^ length [digit_char b]))"
    using decimal_digits [of _ a] digit_char_props(1) [OF assms]
    by (intro py_float_parts) auto
  then show ?thesis
    unfolding val by simp
qed

lemma format_1f_shape:
  "format_1f p = decimal (tenths p div 10) @ ''.'' @ [digit_char (tenths p mod 10)]"
  by (simp add: format_1f_def)

lemma sort_key_of_rendered:
  assumes "CHR ''('' \<notin> set (describe theme_texts t)"
  shows "sort_key_of (generate_theme_text theme_texts t p) =
           Inr (float_round (of_nat (tenths p) / 10))"
proof -
  define a where "a = tenths p div 10"
  define b where "b = tenths p mod 10"
  define num where "num = decimal a @ ''.'' @ [digit_char b]"
  have b: "b < 10" by (simp add: b_def)
  have ab: "10 * a + b = tenths p" by (simp add: a_def b_def)
  have num_nopar: "CHR ''('' \<notin> set (num @ ''% of reviews)'')"
    using decimal_digits [of _ a] digit_char_props(4) [OF b] by (auto simp: num_def)
  have line: "generate_theme_text theme_texts t p =
                (describe theme_texts t @ '' '') @ CHR ''('' # (num @ ''% of reviews)'')"
    by (simp add: generate_theme_text_def format_1f_shape num_def a_def b_def)
  have "split_on CHR ''('' (generate_theme_text theme_texts t p) =
          [describe theme_texts t @ '' '', num @ ''% of reviews)'']"
    unfolding line using assms split_on_no_sep [OF num_nopar]
    by (subst split_on_append_sep) simp_all
  moreover have "rstrip ''% of reviews)'' (num @ ''% of reviews)'') = num"
    using digit_char_props(3) [OF b] by (intro rstrip_suffix) (simp_all add: num_def)
  ultimately have "sort_key_of (generate_theme_text theme_texts t p) = py_float num"
    by (simp add: sort_key_of_def)
  then show ?thesis
    using py_float_one_decimal [OF b, of a] ab by (simp add: num_def)
qed

lemma shown_percentage_rendered:
  assumes "CHR ''('' \<notin> set (describe theme_texts t)"
  shows "shown_percentage (generate_theme_text theme_texts t p) =
           float_round (of_nat (tenths p) / 10)"
  using sort_key_of_rendered [OF assms] by (simp add: shown_percentage_def)

lemma rev2_known_descriptions:
  "list_all (\<lambda>t. CHR ''('' \<notin> set (describe rev2_theme_texts t)) rev2_known_themes"
  by code_simp

lemma tt_known_descriptions:
  "list_all (\<lambda>t. CHR ''('' \<notin> set (describe tt_theme_texts t)) tt_known_themes"
  by code_simp

subsection \<open>What \<open>generate_summary\<close> returns\<close>

lemma occurrences_positive:
  assumes "0 < occurrences analyze s t rs"
  shows "\<exists>r \<in> set rs. \<exists>a. analyze r = Inr a \<and> t \<in> set (bucket s a)"
  using assms
proof (induction rs)
  case Nil
  then show ?case by (simp add: occurrences_Nil)
next
  case (Cons r rs)
  show ?case
  proof (cases "0 < occurrences analyze s t rs")
    case True
    with Cons.IH show ?thesis by auto
  next
    case False
    with Cons.prems have "0 < (case analyze r of Inl e \<Rightarrow> 0
                                | Inr a \<Rightarrow> count_list (bucket s a) t)"
      by (simp add: occurrences_Cons)
    then obtain a where "analyze r = Inr a" "0 < count_list (bucket s a) t"
      by (cases "analyze r") auto
    then show ?thesis
      using count_list_0_iff [of "bucket s a" t] by auto
  qed
qed

lemma tallied_known:
  assumes "\<And>r a s. analyze r = Inr a \<Longrightarrow> set (bucket s a) \<subseteq> K"
  shows "tallied analyze rs \<subseteq> K"
  using assms occurrences_positive unfolding tallied_def by blast

lemma tallied_Nil: "tallied analyze [] = {}"
  by (simp add: tallied_def occurrences_Nil)

lemma counts_of_empty: "counts_of s empty_tally = []"
  by (cases s) (simp_all add: empty_tally_def)

lemma tally_keys_tallied:
  assumes "for_loop (count_review analyze) empty_tally rs = Inr T"
  shows "set (map fst (positive_counts T) @ map fst (negative_counts T) @
              map fst (neutral_counts T)) = tallied analyze rs"
proof -
  have k: "set (map fst (counts_of s T)) = {t. 0 < occurrences analyze s t rs}" for s
    using tally_loop_keys [OF assms, of s] by (simp add: counts_of_empty)
  have "tallied analyze rs =
          {t. 0 < occurrences analyze Positive t rs} \<union>
          {t. 0 < occurrences analyze Negative t rs} \<union>
          {t. 0 < occurrences analyze Neutral t rs}"
    unfolding tallied_def
  proof (intro set_eqI iffI)
    fix t
    assume "t \<in> {t. \<exists>s. 0 < occurrences analyze s t rs}"
    then obtain s where "0 < occurrences analyze s t rs" by blast
    then show "t \<in> {t. 0 < occurrences analyze Positive t rs} \<union>
          {t. 0 < occurrences analyze Negative t rs} \<union>
          {t. 0 < occurrences analyze Neutral t rs}"
      by (cases s) simp_all
  next
    fix t
    assume "t \<in> {t. 0 < occurrences analyze Positive t rs} \<union>
          {t. 0 < occurrences analyze Negative t rs} \<union>
          {t. 0 < occurrences analyze Neutral t rs}"
    then show "t \<in> {t. \<exists>s. 0 < occurrences analyze s t rs}" by blast
  qed
  then show ?thesis
    using k [of Positive] k [of Negative] k [of Neutral]
    by (simp only: set_append counts_of.simps Un_assoc)
qed

lemma tally_verdict_verdict:
  assumes "for_loop (count_review analyze) empty_tally rs = Inr T"
  shows "tally_verdict decide T (length rs) = verdict analyze decide rs"
proof
  fix t
  have "dict_get (counts_of s T) t = occurrences analyze s t rs" for s
    using tally_loop_counts [OF assms, of s t] by (simp add: counts_of_empty dict_get_def)
  from this [of Positive] this [of Negative] this [of Neutral]
  show "tally_verdict decide T (length rs) t = verdict analyze decide rs t"
    by (simp add: tally_verdict_def verdict_def)
qed

lemma summary_lines_rendered:
  assumes "x \<in> set (summary_lines render ts s)"
  shows "\<exists>t p. (t, s, p) \<in> set ts \<and> x = render t p"
  using assms by (auto simp: summary_lines_def)

lemma theme_loop_from_tally:
  assumes ok: "set_order_ok set_order"
    and T: "for_loop (count_review analyze) empty_tally rs = Inr T"
  shows "\<exists>ks. set ks = tallied analyze rs \<and>
           for_loop (theme_step decide T (length rs)) []
             (set_order (map fst (positive_counts T) @ map fst (negative_counts T) @
                         map fst (neutral_counts T))) =
           Inr (included (verdict analyze decide rs) (set_order ks))"
proof -
  let ?ks = "map fst (positive_counts T) @ map fst (negative_counts T) @
             map fst (neutral_counts T)"
  have ks: "set ?ks = tallied analyze rs"
    by (rule tally_keys_tallied [OF T])
  from ok have so: "set (set_order ?ks) = set ?ks" "distinct (set_order ?ks)"
    unfolding set_order_ok_def by blast+
  show ?thesis
  proof (cases "rs = []")
    case True
    with ks have "set (set_order ?ks) = {}"
      using so(1) by (simp add: tallied_Nil)
    then have "set_order ?ks = []" by simp
    then have "for_loop (theme_step decide T (length rs)) [] (set_order ?ks) =
                 Inr (included (verdict analyze decide rs) (set_order ?ks))"
      by (simp add: included_Nil)
    with ks show ?thesis by blast
  next
    case False
    then have n: "0 < length rs" by simp
    have "for_loop (theme_step decide T (length rs)) [] (set_order ?ks) =
            Inr ([] @ included (tally_verdict decide T (length rs)) (set_order ?ks))"
      by (rule theme_loop [OF n so(2)]) simp
    then have "for_loop (theme_step decide T (length rs)) [] (set_order ?ks) =
                 Inr (included (verdict analyze decide rs) (set_order ?ks))"
      by (simp add: tally_verdict_verdict [OF T])
    with ks show ?thesis by blast
  qed
qed

lemma generate_summary_value:
  assumes ok: "set_order_ok set_order"
    and known: "\<And>r a s. analyze r = Inr a \<Longrightarrow> set (bucket s a) \<subseteq> K"
    and parse: "\<And>t p. t \<in> K \<Longrightarrow> \<exists>k. sort_key_of (render t p) = Inr k"
    and all: "\<And>r. r \<in> set rs \<Longrightarrow> \<exists>a. analyze r = Inr a"
  shows "\<exists>ks. set ks = tallied analyze rs \<and>
           generate_summary analyze decide render set_order rs =
             Inr \<lparr>positive =
                    sorted_lines render (included (verdict analyze decide rs) (set_order ks)) Positive,
                  negative =
                    sorted_lines render (included (verdict analyze decide rs) (set_order ks)) Negative,
                  neutral =
                    sorted_lines render (included (verdict analyze decide rs) (set_order ks)) Neutral\<rparr>"
proof -
  from tally_loop_total [of rs analyze empty_tally] all
  obtain T where T: "for_loop (count_review analyze) empty_tally rs = Inr T"
    by blast
  from theme_loop_from_tally [OF ok T, of decide] obtain ks where
    ks: "set ks = tallied analyze rs"
    and loop: "for_loop (theme_step decide T (length rs)) []
             (set_order (map fst (positive_counts T) @ map fst (negative_counts T) @
                         map fst (neutral_counts T))) =
           Inr (included (verdict analyze decide rs) (set_order ks))"
    by blast
  let ?ts = "included (verdict analyze decide rs) (set_order ks)"
  have keys: "fst ` set ?ts \<subseteq> K"
  proof -
    have "fst ` set ?ts \<subseteq> set (set_order ks)" by (rule included_keys)
    also have "\<dots> = set ks" using ok unfolding set_order_ok_def by blast
    also have "\<dots> \<subseteq> K" unfolding ks by (rule tallied_known [OF known])
    finally show ?thesis .
  qed
  have sorted: "sorted_by_percentage (summary_lines render ?ts s) = Inr (sorted_lines render ?ts s)"
    for s
    unfolding sorted_lines_def
  proof (rule sorted_by_percentage_value)
    fix x
    assume "x \<in> set (summary_lines render ?ts s)"
    then obtain t p where "(t, s, p) \<in> set ?ts" "x = render t p"
      using summary_lines_rendered by blast
    with keys have "t \<in> K" by force
    with parse \<open>x = render t p\<close> show "\<exists>k. sort_key_of x = Inr k" by blast
  qed
  have "generate_summary analyze decide render set_order rs =
          Inr \<lparr>positive = sorted_lines render ?ts Positive,
               negative = sorted_lines render ?ts Negative,
               neutral = sorted_lines render ?ts Neutral\<rparr>"
    unfolding generate_summary_def T Let_def sum.case loop sorted
    by simp
  with ks show ?thesis by blast
qed

lemma generate_summary_raises:
  assumes "r \<in> set rs" and "analyze r = Inl e"
  shows "\<exists>r' \<in> set rs. \<exists>e'. analyze r' = Inl e' \<and>
           generate_summary analyze decide render set_order rs = Inl e'"
proof -
  from tally_loop_raises [of r rs analyze e empty_tally] assms obtain e' where
    e': "for_loop (count_review analyze) empty_tally rs = Inl e'"
    by blast
  from tally_loop_error [OF this] obtain r' where "r' \<in> set rs" "analyze r' = Inl e'"
    by blast
  moreover have "generate_summary analyze decide render set_order rs = Inl e'"
    unfolding generate_summary_def e' by simp
  ultimately show ?thesis by blast
qed

subsection \<open>Permuting the corpus\<close>

lemma verdict_perm:
  assumes "mset rs = mset rs'"
  shows "verdict analyze decide rs = verdict analyze decide rs'"
proof
  fix t
  have "length rs = length rs'"
    using assms by (rule mset_eq_length)
  then show "verdict analyze decide rs t = verdict analyze decide rs' t"
    by (simp add: verdict_def occurrences_perm [OF assms])
qed

lemma tallied_perm:
  assumes "mset rs = mset rs'"
  shows "tallied analyze rs = tallied analyze rs'"
  by (simp add: tallied_def occurrences_perm [OF assms])

lemma mset_concat_map_perm:
  assumes "mset xs = mset ys"
  shows "mset (concat (map g xs)) = mset (concat (map g ys))"
proof -
  have "mset (concat (map g zs)) = (\<Sum>z \<in># mset zs. mset (g z))" for zs
    by (induction zs) simp_all
  with assms show ?thesis by simp
qed

lemma included_perm:
  assumes "mset xs = mset ys"
  shows "mset (included v xs) = mset (included v ys)"
  unfolding included_def by (rule mset_concat_map_perm [OF assms])

lemma summary_lines_perm:
  assumes "mset ts = mset ts'"
  shows "mset (summary_lines render ts s) = mset (summary_lines render ts' s)"
  using assms by (simp add: summary_lines_def)

lemma distinct_same_set_mset:
  assumes "distinct xs" and "distinct ys" and "set xs = set ys"
  shows "mset xs = mset ys"
  using assms by (simp add: set_eq_iff_mset_eq_distinct)

lemma sorted_lines_perm:
  assumes "mset ts = mset ts'"
  shows "mset (sorted_lines render ts s) = mset (sorted_lines render ts' s) \<and>
         descending (sorted_lines render ts s) \<and> descending (sorted_lines render ts' s) \<and>
         (distinct (map shown_percentage (sorted_lines render ts s)) \<longrightarrow>
            sorted_lines render ts s = sorted_lines render ts' s)"
proof -
  let ?k = "\<lambda>x. - shown_percentage x"
  let ?xs = "summary_lines render ts s"
  let ?ys = "summary_lines render ts' s"
  have m: "mset ?xs = mset ?ys"
    by (rule summary_lines_perm [OF assms])
  have eq: "sort_key ?k ?xs = sort_key ?k ?ys"
    if d: "distinct (map shown_percentage (sort_key ?k ?xs))"
  proof (rule sort_key_perm_inj [OF m])
    from d have "inj_on shown_percentage (set (sort_key ?k ?xs))"
      by (simp add: distinct_map)
    then have "inj_on shown_percentage (set ?xs)" by simp
    then show "inj_on ?k (set ?xs)"
      by (auto simp: inj_on_def)
  qed
  show ?thesis
    using m eq by (simp add: sorted_lines_def descending_sort)
qed

lemma generate_summary_perm:
  assumes perm: "mset rs = mset rs'"
    and ok: "set_order_ok set_order"
    and known: "\<And>r a s. analyze r = Inr a \<Longrightarrow> set (bucket s a) \<subseteq> K"
    and parse: "\<And>t p. t \<in> K \<Longrightarrow> \<exists>k. sort_key_of (render t p) = Inr k"
    and err: "\<And>r e. analyze r = Inl e \<Longrightarrow> e = AttributeError"
  shows "same_up_to_ties (generate_summary analyze decide render set_order rs)
           (generate_summary analyze decide render set_order rs') \<and>
         (insertion_independent set_order \<longrightarrow>
            generate_summary analyze decide render set_order rs =
            generate_summary analyze decide render set_order rs')"
proof (cases "\<forall>r \<in> set rs. \<exists>a. analyze r = Inr a")
  case True
  have sets: "set rs = set rs'"
    using perm by (rule mset_eq_setD)
  let ?v = "verdict analyze decide rs"
  have gsv: "\<exists>ks. set ks = tallied analyze rs0 \<and>
           generate_summary analyze decide render set_order rs0 =
             Inr \<lparr>positive =
                    sorted_lines render (included (verdict analyze decide rs0) (set_order ks)) Positive,
                  negative =
                    sorted_lines render (included (verdict analyze decide rs0) (set_order ks)) Negative,
                  neutral =
                    sorted_lines render (included (verdict analyze decide rs0) (set_order ks)) Neutral\<rparr>"
    if "\<And>r. r \<in> set rs0 \<Longrightarrow> \<exists>a. analyze r = Inr a" for rs0
  proof (rule generate_summary_value [where K = K])
    show "set_order_ok set_order" by (rule ok)
    show "set (bucket s a) \<subseteq> K" if "analyze r = Inr a" for r a s
      using that by (rule known)
    show "\<exists>k. sort_key_of (render t p) = Inr k" if "t \<in> K" for t p
      using that by (rule parse)
    show "\<exists>a. analyze r = Inr a" if "r \<in> set rs0" for r
      using that by (rule \<open>\<And>r. r \<in> set rs0 \<Longrightarrow> \<exists>a. analyze r = Inr a\<close>)
  qed
  from gsv [of rs] True
  obtain ks where ks: "set ks = tallied analyze rs"
    and R: "generate_summary analyze decide render set_order rs =
             Inr \<lparr>positive = sorted_lines render (included ?v (set_order ks)) Positive,
                  negative = sorted_lines render (included ?v (set_order ks)) Negative,
                  neutral = sorted_lines render (included ?v (set_order ks)) Neutral\<rparr>"
    by blast
  from gsv [of rs'] True sets
  obtain ks' where ks': "set ks' = tallied analyze rs'"
    and R': "generate_summary analyze decide render set_order rs' =
             Inr \<lparr>positive = sorted_lines render (included ?v (set_order ks')) Positive,
                  negative = sorted_lines render (included ?v (set_order ks')) Negative,
                  neutral = sorted_lines render (included ?v (set_order ks')) Neutral\<rparr>"
    unfolding verdict_perm [OF perm, of analyze decide] by blast
  have same: "set ks = set ks'"
    unfolding ks ks' by (rule tallied_perm [OF perm])
  from ok have "distinct (set_order ks)" "distinct (set_order ks')"
    "set (set_order ks) = set ks" "set (set_order ks') = set ks'"
    unfolding set_order_ok_def by blast+
  with same have "mset (set_order ks) = mset (set_order ks')"
    by (intro distinct_same_set_mset) simp_all
  then have ts: "mset (included ?v (set_order ks)) = mset (included ?v (set_order ks'))"
    by (rule included_perm)
  have "same_up_to_ties (generate_summary analyze decide render set_order rs)
           (generate_summary analyze decide render set_order rs')"
    unfolding R R' same_up_to_ties_def
  proof (simp only: prod.case sum.case, intro allI)
    fix s
    from sorted_lines_perm [OF ts, of render s]
    show "mset (bucket s \<lparr>positive = sorted_lines render (included ?v (set_order ks)) Positive,
                  negative = sorted_lines render (included ?v (set_order ks)) Negative,
                  neutral = sorted_lines render (included ?v (set_order ks)) Neutral\<rparr>) =
          mset (bucket s \<lparr>positive = sorted_lines render (included ?v (set_order ks')) Positive,
                  negative = sorted_lines render (included ?v (set_order ks')) Negative,
                  neutral = sorted_lines render (included ?v (set_order ks')) Neutral\<rparr>) \<and>
          descending (bucket s \<lparr>positive = sorted_lines render (included ?v (set_order ks)) Positive,
                  negative = sorted_lines render (included ?v (set_order ks)) Negative,
                  neutral = sorted_lines render (included ?v (set_order ks)) Neutral\<rparr>) \<and>
          descending (bucket s \<lparr>positive = sorted_lines render (included ?v (set_order ks')) Positive,
                  negative = sorted_lines render (included ?v (set_order ks')) Negative,
                  neutral = sorted_lines render (included ?v (set_order ks')) Neutral\<rparr>) \<and>
          (distinct (map shown_percentage
             (bucket s \<lparr>positive = sorted_lines render (included ?v (set_order ks)) Positive,
                  negative = sorted_lines render (included ?v (set_order ks)) Negative,
                  neutral = sorted_lines render (included ?v (set_order ks)) Neutral\<rparr>)) \<longrightarrow>
           bucket s \<lparr>positive = sorted_lines render (included ?v (set_order ks)) Positive,
                  negative = sorted_lines render (included ?v (set_order ks)) Negative,
                  neutral = sorted_lines render (included ?v (set_order ks)) Neutral\<rparr> =
           bucket s \<lparr>positive = sorted_lines render (included ?v (set_order ks')) Positive,
                  negative = sorted_lines render (included ?v (set_order ks')) Negative,
                  neutral = sorted_lines render (included ?v (set_order ks')) Neutral\<rparr>)"
      by (cases s) simp_all
  qed
  moreover have "generate_summary analyze decide render set_order rs =
                 generate_summary analyze decide render set_order rs'"
    if "insertion_independent set_order"
  proof -
    from that same have "set_order ks = set_order ks'"
      unfolding insertion_independent_def by blast
    then show ?thesis unfolding R R' by simp
  qed
  ultimately show ?thesis by blast
next
  case False
  then obtain r e where r: "r \<in> set rs" "analyze r = Inl e"
    by (metis sum.exhaust_sel sum.collapse(1) sum.collapse(2))
  have sets: "set rs = set rs'"
    using perm by (rule mset_eq_setD)
  from generate_summary_raises [where r = r and rs = rs and analyze = analyze and e = e
      and decide = decide and render = render and set_order = set_order] r
  obtain e1 where "generate_summary analyze decide render set_order rs = Inl e1"
    "\<exists>r' \<in> set rs. analyze r' = Inl e1"
    by blast
  with err have R: "generate_summary analyze decide render set_order rs = Inl AttributeError"
    by blast
  from generate_summary_raises [where r = r and rs = rs' and analyze = analyze and e = e
      and decide = decide and render = render and set_order = set_order] r sets
  obtain e2 where "generate_summary analyze decide render set_order rs' = Inl e2"
    "\<exists>r' \<in> set rs'. analyze r' = Inl e2"
    by blast
  with err have R': "generate_summary analyze decide render set_order rs' = Inl AttributeError"
    by blast
  show ?thesis
    unfolding R R' by (simp add: same_up_to_ties_def)
qed

subsection \<open>The two aggregators under permutation\<close>

lemma for_loop_error:
  assumes "for_loop body s xs = Inl e"
  shows "\<exists>s' x. x \<in> set xs \<and> body s' x = Inl e"
  using assms
proof (induction xs arbitrary: s)
  case Nil
  then show ?case by simp
next
  case (Cons x xs)
  show ?case
  proof (cases "body s x")
    case (Inl e')
    with Cons.prems show ?thesis by auto
  next
    case (Inr s1)
    with Cons.prems have "for_loop body s1 xs = Inl e" by simp
    from Cons.IH [OF this] show ?thesis by auto
  qed
qed

lemma rev2_text_field_error:
  "rev2_text_field sia review r f = Inl e \<Longrightarrow> e = AttributeError"
  by (auto simp: rev2_text_field_def rev2_analyze_text_def Let_def
      split: option.splits if_splits sum.splits pyval.splits)

lemma tt_text_field_error:
  "tt_text_field sia review r ff = Inl e \<Longrightarrow> e = AttributeError"
  by (auto simp: tt_text_field_def tt_analyze_text_def Let_def
      split: option.splits if_splits sum.splits pyval.splits)

lemma rev2_review_error:
  assumes "rev2_analyze_review sia review = Inl e"
  shows "e = AttributeError"
proof -
  let ?r1 = "add_ratings empty_result (rev2_analyze_numeric_ratings review)"
  obtain r2 where r2: "rev2_add_salary review ?r1 = Inr r2"
    by (rule rev2_add_salary_cases [of review ?r1]) auto
  with assms have "for_loop (rev2_text_field sia review) r2 text_field_names = Inl e"
    by (auto simp: rev2_analyze_review_def empty_result_def text_field_names_def
        split: sum.splits)
  from for_loop_error [OF this] show ?thesis
    using rev2_text_field_error by blast
qed

lemma tt_review_error:
  assumes "tt_analyze_review sia review = Inl e"
  shows "e = AttributeError"
proof -
  let ?r1 = "add_ratings empty_result (tt_analyze_numeric_ratings review)"
  obtain r2 where r2: "tt_add_salary review ?r1 = Inr r2"
    by (rule tt_add_salary_cases [of review ?r1]) auto
  with assms have "for_loop (tt_text_field sia review) r2 text_fields = Inl e"
    by (auto simp: tt_analyze_review_def empty_result_def split: sum.splits)
  from for_loop_error [OF this] show ?thesis
    using tt_text_field_error by blast
qed

lemma rev2_line_parses:
  assumes "t \<in> set rev2_known_themes"
  shows "\<exists>k. sort_key_of (rev2_generate_theme_text t p) = Inr k"
proof -
  from assms rev2_known_descriptions have "CHR ''('' \<notin> set (describe rev2_theme_texts t)"
    unfolding list_all_iff by blast
  from sort_key_of_rendered [OF this] show ?thesis
    by (simp add: rev2_generate_theme_text_def)
qed

lemma tt_line_parses:
  assumes "t \<in> set tt_known_themes"
  shows "\<exists>k. sort_key_of (tt_generate_theme_text t p) = Inr k"
proof -
  from assms tt_known_descriptions have "CHR ''('' \<notin> set (describe tt_theme_texts t)"
    unfolding list_all_iff by blast
  from sort_key_of_rendered [OF this] show ?thesis
    by (simp add: tt_generate_theme_text_def)
qed

lemma rev2_summary_perm:
  assumes "mset rs = mset rs'" and "set_order_ok set_order"
  shows "same_up_to_ties (rev2_generate_summary sia set_order rs)
           (rev2_generate_summary sia set_order rs') \<and>
         (insertion_independent set_order \<longrightarrow>
            rev2_generate_summary sia set_order rs = rev2_generate_summary sia set_order rs')"
  unfolding rev2_generate_summary_def
proof (rule generate_summary_perm [where K = "set rev2_known_themes"])
  show "mset rs = mset rs'" by (rule assms(1))
  show "set_order_ok set_order" by (rule assms(2))
  show "set (bucket s a) \<subseteq> set rev2_known_themes" if "rev2_analyze_review sia r = Inr a" for r a s
    using that by (rule rev2_analysis_known)
  show "\<exists>k. sort_key_of (rev2_generate_theme_text t p) = Inr k"
    if "t \<in> set rev2_known_themes" for t p
    using that by (rule rev2_line_parses)
  show "e = AttributeError" if "rev2_analyze_review sia r = Inl e" for r e
    using that by (rule rev2_review_error)
qed

lemma tt_summary_perm:
  assumes "mset rs = mset rs'" and "set_order_ok set_order"
  shows "same_up_to_ties (tt_generate_summary sia set_order rs)
           (tt_generate_summary sia set_order rs') \<and>
         (insertion_independent set_order \<longrightarrow>
            tt_generate_summary sia set_order rs = tt_generate_summary sia set_order rs')"
  unfolding tt_generate_summary_def
proof (rule generate_summary_perm [where K = "set tt_known_themes"])
  show "mset rs = mset rs'" by (rule assms(1))
  show "set_order_ok set_order" by (rule assms(2))
  show "set (bucket s a) \<subseteq> set tt_known_themes" if "tt_analyze_review sia r = Inr a" for r a s
    using that by (rule tt_analysis_known)
  show "\<exists>k. sort_key_of (tt_generate_theme_text t p) = Inr k"
    if "t \<in> set tt_known_themes" for t p
    using that by (rule tt_line_parses)
  show "e = AttributeError" if "tt_analyze_review sia r = Inl e" for r e
    using that by (rule tt_review_error)
qed

lemma tied_rev2:
  "rev2_generate_summary flat_scorer first_seen [balance_review, growth_review] =
     Inr \<lparr>positive = [''Good work-life balance and flexible scheduling (50.0% of reviews)'',
                      ''Excellent career growth and learning opportunities (50.0% of reviews)''],
          negative = [], neutral = []\<rparr>"
  "rev2_generate_summary flat_scorer first_seen [growth_review, balance_review] =
     Inr \<lparr>positive = [''Excellent career growth and learning opportunities (50.0% of reviews)'',
                      ''Good work-life balance and flexible scheduling (50.0% of reviews)''],
          negative = [], neutral = []\<rparr>"
  by code_simp+

lemma tied_tt:
  "tt_generate_summary flat_scorer first_seen [balance_review, growth_review] =
     Inr \<lparr>positive = [''Work-life balance practices (50.0% of reviews)'',
                      ''Career development opportunities (50.0% of reviews)''],
          negative = [], neutral = []\<rparr>"
  "tt_generate_summary flat_scorer first_seen [growth_review, balance_review] =
     Inr \<lparr>positive = [''Career development opportunities (50.0% of reviews)'',
                      ''Work-life balance practices (50.0% of reviews)''],
          negative = [], neutral = []\<rparr>"
  by code_simp+

text \<open>
  C3 (as the code has it). For every list of reviews and every permutation of it, both
  \<open>generate_summary\<close> versions return results that agree up to the order of lines showing
  the same percentage: either both raise the same exception, or each polarity group holds
  the same rendered strings, in descending order of the percentage shown, and the groups
  are identical lists whenever no two lines of a group show the same percentage. The order
  among lines with the same shown percentage is the iteration order of a Python set of
  themes, which can follow the order of insertion and so the order of the reviews; where
  that iteration order depends on the elements only, the two results are identical.
\<close>

theorem C3_permutation_up_to_ties:
  assumes "mset reviews = mset reviews'" and "set_order_ok set_order"
  shows "same_up_to_ties (rev2_generate_summary sia set_order reviews)
           (rev2_generate_summary sia set_order reviews') \<and>
         same_up_to_ties (tt_generate_summary sia set_order reviews)
           (tt_generate_summary sia set_order reviews') \<and>
         (insertion_independent set_order \<longrightarrow>
            rev2_generate_summary sia set_order reviews =
              rev2_generate_summary sia set_order reviews' \<and>
            tt_generate_summary sia set_order reviews =
              tt_generate_summary sia set_order reviews')"
  using rev2_summary_perm [OF assms, of sia] tt_summary_perm [OF assms, of sia] by blast

theorem C3_permutation_up_to_ties_witness:
  "mset [balance_review, growth_review] = mset [growth_review, balance_review] \<and>
   set_order_ok first_seen \<and>
   same_up_to_ties
     (rev2_generate_summary flat_scorer first_seen [balance_review, growth_review])
     (rev2_generate_summary flat_scorer first_seen [growth_review, balance_review]) \<and>
   same_up_to_ties
     (tt_generate_summary flat_scorer first_seen [balance_review, growth_review])
     (tt_generate_summary flat_scorer first_seen [growth_review, balance_review])"
proof -
  have m: "mset [balance_review, growth_review] = mset [growth_review, balance_review]"
    by simp
  from C3_permutation_up_to_ties [OF m first_seen_ok, of flat_scorer] m first_seen_ok
  show ?thesis by blast
qed

theorem C3_order_counterexample:
  "set_order_ok first_seen \<and>
   mset [balance_review, growth_review] = mset [growth_review, balance_review] \<and>
   rev2_generate_summary flat_scorer first_seen [balance_review, growth_review] \<noteq>
     rev2_generate_summary flat_scorer first_seen [growth_review, balance_review] \<and>
   tt_generate_summary flat_scorer first_seen [balance_review, growth_review] \<noteq>
     tt_generate_summary flat_scorer first_seen [growth_review, balance_review]"
  using first_seen_ok unfolding tied_rev2 tied_tt by simp

section \<open>Inclusion of a theme in the summary\<close>

subsection \<open>Which themes the summary includes\<close>

lemma included_member:
  "(t, dp) \<in> set (included v themes) \<longleftrightarrow> t \<in> set themes \<and> v t = Some dp"
proof (induction themes)
  case Nil
  show ?case by (simp add: included_Nil)
next
  case (Cons a themes)
  show ?case
  proof (cases "v a")
    case None
    then show ?thesis using Cons by (auto simp: included_Cons)
  next
    case (Some q)
    then show ?thesis using Cons by (auto simp: included_Cons)
  qed
qed

lemma set_summary_lines:
  "set (summary_lines render ts s) = {render t p | t p. (t, s, p) \<in> set ts}"
  by (auto simp: summary_lines_def) force

lemma generate_summary_analyzable:
  assumes "generate_summary analyze decide render set_order rs = Inr S" and "r \<in> set rs"
  shows "\<exists>a. analyze r = Inr a"
proof (cases "analyze r")
  case (Inl e)
  from generate_summary_raises [where r = r and rs = rs and analyze = analyze and e = e
      and decide = decide and render = render and set_order = set_order] assms(2) Inl
  show ?thesis using assms(1) by auto
next
  case (Inr a)
  then show ?thesis by blast
qed

lemma generate_summary_lines:
  assumes ok: "set_order_ok set_order"
    and known: "\<And>r a s. analyze r = Inr a \<Longrightarrow> set (bucket s a) \<subseteq> K"
    and parse: "\<And>t p. t \<in> K \<Longrightarrow> \<exists>k. sort_key_of (render t p) = Inr k"
    and S: "generate_summary analyze decide render set_order rs = Inr S"
  shows "x \<in> set (bucket s S) \<longleftrightarrow>
           (\<exists>t p. t \<in> tallied analyze rs \<and> verdict analyze decide rs t = Some (s, p) \<and>
                  x = render t p)"
proof -
  have "\<exists>ks. set ks = tallied analyze rs \<and>
           generate_summary analyze decide render set_order rs =
             Inr \<lparr>positive =
                    sorted_lines render (included (verdict analyze decide rs) (set_order ks)) Positive,
                  negative =
                    sorted_lines render (included (verdict analyze decide rs) (set_order ks)) Negative,
                  neutral =
                    sorted_lines render (included (verdict analyze decide rs) (set_order ks)) Neutral\<rparr>"
  proof (rule generate_summary_value [where K = K])
    show "set_order_ok set_order" by (rule ok)
    show "set (bucket s a) \<subseteq> K" if "analyze r = Inr a" for r a s
      using that by (rule known)
    show "\<exists>k. sort_key_of (render t p) = Inr k" if "t \<in> K" for t p
      using that by (rule parse)
    show "\<exists>a. analyze r = Inr a" if "r \<in> set rs" for r
      using S that by (rule generate_summary_analyzable)
  qed
  then obtain ks where ks: "set ks = tallied analyze rs"
    and R: "S = \<lparr>positive =
                    sorted_lines render (included (verdict analyze decide rs) (set_order ks)) Positive,
                  negative =
                    sorted_lines render (included (verdict analyze decide rs) (set_order ks)) Negative,
                  neutral =
                    sorted_lines render (included (verdict analyze decide rs) (set_order ks)) Neutral\<rparr>"
    using S by auto
  have b: "bucket s S = sorted_lines render (included (verdict analyze decide rs) (set_order ks)) s"
    unfolding R by (cases s) simp_all
  have so: "set (set_order ks) = tallied analyze rs"
    using ok ks unfolding set_order_ok_def by simp
  show ?thesis
    unfolding b sorted_lines_def
    by (auto simp: set_summary_lines included_member so)
qed


subsection \<open>Thresholds on computed percentages\<close>

lemma computed_percent_nonneg: "0 \<le> computed_percent k n"
  unfolding computed_percent_def float_mul_def
  by (intro float_round_nonneg mult_nonneg_nonneg) simp_all

lemma computed_percent_zero: "computed_percent 0 n = 0"
  by (simp add: computed_percent_def float_mul_def float_round_def)

lemma computed_percent_upper:
  assumes "(of_nat k / of_nat n :: rat) \<le> q"
  shows "computed_percent k n \<le> float_mul (float_round q) 100"
proof -
  have "float_round (of_nat k / of_nat n) \<le> float_round q"
    using assms by (intro float_round_mono) simp_all
  moreover have "0 \<le> float_round (of_nat k / of_nat n)"
    by (intro float_round_nonneg) simp
  ultimately show ?thesis
    unfolding computed_percent_def float_mul_def
    by (intro float_round_mono) simp_all
qed

lemma computed_percent_lower:
  assumes "0 \<le> q" and "q \<le> (of_nat k / of_nat n :: rat)"
  shows "float_mul (float_round q) 100 \<le> computed_percent k n"
proof -
  have "float_round q \<le> float_round (of_nat k / of_nat n)"
    using assms by (intro float_round_mono) simp_all
  moreover have "0 \<le> float_round q"
    using assms(1) by (rule float_round_nonneg)
  ultimately show ?thesis
    unfolding computed_percent_def float_mul_def
    by (intro float_round_mono) simp_all
qed

lemma computed_percent_mono_count:
  assumes "k \<le> k'"
  shows "computed_percent k n \<le> computed_percent k' n"
proof -
  have "(of_nat k / of_nat n :: rat) \<le> of_nat k' / of_nat n"
    using assms by (simp add: divide_right_mono)
  from computed_percent_upper [OF this] show ?thesis
    by (simp add: computed_percent_def)
qed

lemma computed_percent_max:
  "max (computed_percent a n) (computed_percent b n) = computed_percent (max a b) n"
proof (cases "a \<le> b")
  case True
  with computed_percent_mono_count [OF True, of n] show ?thesis by (simp add: max_def)
next
  case False
  then have "b \<le> a" by simp
  from computed_percent_mono_count [OF this, of n] False show ?thesis by (simp add: max_def)
qed

text \<open>
  A threshold \<open>T\<close> that the percentage of the exact ratio \<open>a/b\<close> reaches and that the
  percentage of \<open>a/b - 1/(b N)\<close> misses separates the counts exactly, up to \<open>N\<close> reviews;
  also after a further monotone step \<open>g\<close>.
\<close>

lemma threshold_exact:
  fixes g :: "rat \<Rightarrow> rat"
  assumes n: "0 < n" "n \<le> N" and b: "0 < b"
    and g: "\<And>x y. 0 \<le> x \<Longrightarrow> x \<le> y \<Longrightarrow> g x \<le> g y"
    and reach: "T \<le> g (float_mul (float_round (of_nat a / of_nat b)) 100)"
    and miss: "g (float_mul (float_round (of_nat a / of_nat b - 1 / (of_nat b * of_nat N))) 100) < T"
  shows "T \<le> g (computed_percent k n) \<longleftrightarrow> a * n \<le> b * k"
proof
  assume le: "a * n \<le> b * k"
  then have "(of_nat (a * n) :: rat) \<le> of_nat (b * k)"
    by (simp only: of_nat_le_iff)
  then have "(of_nat a / of_nat b :: rat) \<le> of_nat k / of_nat n"
    using n(1) b by (simp add: field_simps)
  then have "float_mul (float_round (of_nat a / of_nat b)) 100 \<le> computed_percent k n"
    by (intro computed_percent_lower) simp_all
  moreover have "0 \<le> float_mul (float_round (of_nat a / of_nat b)) 100"
    unfolding float_mul_def by (intro float_round_nonneg mult_nonneg_nonneg) simp_all
  ultimately have "g (float_mul (float_round (of_nat a / of_nat b)) 100) \<le> g (computed_percent k n)"
    by (intro g)
  with reach show "T \<le> g (computed_percent k n)"
    by simp
next
  assume T: "T \<le> g (computed_percent k n)"
  show "a * n \<le> b * k"
  proof (rule ccontr)
    assume "\<not> a * n \<le> b * k"
    then have "b * k + 1 \<le> a * n" by simp
    then have "(of_nat (b * k + 1) :: rat) \<le> of_nat (a * n)"
      by (simp only: of_nat_le_iff)
    then have 1: "(of_nat b * of_nat k + 1 :: rat) \<le> of_nat a * of_nat n"
      by simp
    have "(of_nat k / of_nat n :: rat) \<le> of_nat a / of_nat b - 1 / (of_nat b * of_nat n)"
      using 1 n(1) b by (simp add: field_simps)
    also have "\<dots> \<le> of_nat a / of_nat b - 1 / (of_nat b * of_nat N)"
    proof -
      have "(of_nat b * of_nat n :: rat) \<le> of_nat b * of_nat N"
        using n(2) b by simp
      moreover have "(0::rat) < of_nat b * of_nat n"
        using n(1) b by simp
      ultimately have "1 / (of_nat b * of_nat N :: rat) \<le> 1 / (of_nat b * of_nat n)"
        by (intro divide_left_mono) simp_all
      then show ?thesis by simp
    qed
    finally have "computed_percent k n \<le>
        float_mul (float_round (of_nat a / of_nat b - 1 / (of_nat b * of_nat N))) 100"
      by (rule computed_percent_upper)
    then have "g (computed_percent k n) \<le>
        g (float_mul (float_round (of_nat a / of_nat b - 1 / (of_nat b * of_nat N))) 100)"
      by (intro g computed_percent_nonneg)
    with miss T show False by simp
  qed
qed

lemma reach_20: "(20::rat) \<le> float_mul (float_round (1 / 5)) 100"
  by code_simp

lemma miss_20: "float_mul (float_round (1 / 5 - 1 / (5 * 1000000000000))) 100 < (20::rat)"
  by code_simp

lemma reach_15: "(15::rat) \<le> float_round (float_mul (float_round (3 / 20)) 100)"
  by code_simp

lemma miss_15:
  "float_round (float_mul (float_round (3 / 20 - 1 / (20 * 1000000000000))) 100) < (15::rat)"
  by code_simp

lemma reach_30: "(30::rat) \<le> float_mul (float_round (3 / 10)) 100"
  by code_simp

lemma miss_30: "float_mul (float_round (3 / 10 - 1 / (10 * 1000000000000))) 100 < (30::rat)"
  by code_simp

lemma float_round_15: "float_round 15 = 15"
  by code_simp

lemma percent_ge_20:
  assumes "0 < n" and "n \<le> max_reviews"
  shows "20 \<le> computed_percent k n \<longleftrightarrow> 20 * n \<le> 100 * k"
proof -
  have "20 \<le> computed_percent k n \<longleftrightarrow> 1 * n \<le> 5 * k"
  proof (rule threshold_exact [where g = "\<lambda>x. x" and N = max_reviews])
    show "(20::rat) \<le> float_mul (float_round (of_nat 1 / of_nat 5)) 100"
      using reach_20 by simp
    show "float_mul (float_round (of_nat 1 / of_nat 5 - 1 / (of_nat 5 * of_nat max_reviews))) 100
            < (20::rat)"
      using miss_20 by (simp add: max_reviews_def)
  qed (use assms in simp_all)
  then show ?thesis by simp
qed

lemma percent_ge_30:
  assumes "0 < n" and "n \<le> max_reviews"
  shows "30 \<le> computed_percent k n \<longleftrightarrow> 30 * n \<le> 100 * k"
proof -
  have "30 \<le> computed_percent k n \<longleftrightarrow> 3 * n \<le> 10 * k"
  proof (rule threshold_exact [where g = "\<lambda>x. x" and N = max_reviews])
    show "(30::rat) \<le> float_mul (float_round (of_nat 3 / of_nat 10)) 100"
      using reach_30 by simp
    show "float_mul (float_round (of_nat 3 / of_nat 10 - 1 / (of_nat 10 * of_nat max_reviews))) 100
            < (30::rat)"
      using miss_30 by (simp add: max_reviews_def)
  qed (use assms in simp_all)
  then show ?thesis by simp
qed

lemma rounded_percent_ge_15:
  assumes "0 < n" and "n \<le> max_reviews"
  shows "15 \<le> float_round (computed_percent k n) \<longleftrightarrow> 15 * n \<le> 100 * k"
proof -
  have "15 \<le> float_round (computed_percent k n) \<longleftrightarrow> 3 * n \<le> 20 * k"
  proof (rule threshold_exact [where g = float_round and N = max_reviews])
    show "(15::rat) \<le> float_round (float_mul (float_round (of_nat 3 / of_nat 20)) 100)"
      using reach_15 by simp
    show "float_round (float_mul (float_round (of_nat 3 / of_nat 20 -
            1 / (of_nat 20 * of_nat max_reviews))) 100) < (15::rat)"
      using miss_15 by (simp add: max_reviews_def)
    show "float_round x \<le> float_round y" if "0 \<le> x" "x \<le> y" for x y
      using that by (rule float_round_mono)
  qed (use assms in simp_all)
  then show ?thesis by simp
qed

lemma float_round_minus: "float_round (- x) = - float_round x"
  by (simp add: float_round_def)

end
